(* ===== verification/Prelude.thy ===== *)
theory Prelude
  imports Complex_Main "HOL-Library.Word" "HOL-Library.Sublist" "HOL-Library.Multiset"
begin

text \<open>
  Shared vocabulary of the AskDoc-RAG model (\<^verbatim>\<open>src/app.py\<close>).
  The one Python module raises exceptions and passes state implicitly; the model
  writes every exception as the \<open>Inl\<close> side of a sum \<open>error + 'a\<close> and every
  piece of state as an explicit record. This theory holds the types every component
  uses: bytes as lists of \<open>8 word\<close>, file-system paths, the exception datatype,
  the sum-monad bind \<open>sbind\<close> and its list traversal \<open>traverse\<close>
  (a batched service call that fails as soon as one element fails), Python's
  \<open>str.join\<close>, and the lemmas on them that the component proofs share
  (collected in \<open>rag_simps\<close>).
\<close>

named_theorems rag_simps "equations of the shared helpers of the RAG model"

type_synonym byte = "8 word"
type_synonym bytes = "byte list"
type_synonym path = nat

text \<open>
  The exceptions that can leave a call of the program. \<open>LoadError\<close>,
  \<open>EmbeddingError\<close>, \<open>GenerationError\<close> and \<open>EmptyIndexError\<close> are the
  failures of the external collaborators named by the spec (the last one, for a
  retrieval before the index is built, is never raised by the app, which retrieves
  only from a built index); \<open>WriteError\<close> is an
  \<open>OSError\<close> of the temporary-file write; \<open>AttributeError\<close> is what Python
  raises for \<^verbatim>\<open>None.run(...)\<close> and for reading an unset session attribute;
  \<open>MissingCredentialError\<close> is the halt at start-up.
\<close>

datatype error =
    LoadError
  | EmbeddingError
  | GenerationError
  | EmptyIndexError
  | WriteError
  | AttributeError
  | MissingCredentialError

definition sbind :: "'e + 'a \<Rightarrow> ('a \<Rightarrow> 'e + 'b) \<Rightarrow> 'e + 'b" where
  "sbind m f = (case m of Inl e \<Rightarrow> Inl e | Inr a \<Rightarrow> f a)"

fun traverse :: "('a \<Rightarrow> 'e + 'b) \<Rightarrow> 'a list \<Rightarrow> 'e + 'b list" where
  "traverse f [] = Inr []"
| "traverse f (x # xs) =
     (case f x of
        Inl e \<Rightarrow> Inl e
      | Inr y \<Rightarrow> (case traverse f xs of Inl e \<Rightarrow> Inl e | Inr ys \<Rightarrow> Inr (y # ys)))"

text \<open>Python's \<^verbatim>\<open>sep.join(xs)\<close> on strings.\<close>

fun join :: "string \<Rightarrow> string list \<Rightarrow> string" where
  "join sep [] = []"
| "join sep [x] = x"
| "join sep (x # y # zs) = x @ sep @ join sep (y # zs)"

definition newline :: char where
  "newline = CHR 0x0A"

subsection \<open>Lemmas on the sum monad\<close>

lemma sbind_Inl [simp, rag_simps]: "sbind (Inl e) f = Inl e"
  by (simp add: sbind_def)

lemma sbind_Inr [simp, rag_simps]: "sbind (Inr a) f = f a"
  by (simp add: sbind_def)

lemma sbind_eq_Inr_iff:
  "sbind m f = Inr b \<longleftrightarrow> (\<exists>a. m = Inr a \<and> f a = Inr b)"
  by (cases m) auto

subsection \<open>Lemmas on \<open>traverse\<close>\<close>

lemma traverse_Inr_iff:
  "traverse f xs = Inr ys \<longleftrightarrow> list_all2 (\<lambda>x y. f x = Inr y) xs ys"
proof (induction xs arbitrary: ys)
  case Nil
  then show ?case by auto
next
  case (Cons x xs)
  show ?case
    by (auto simp: list_all2_Cons1 Cons.IH [symmetric] split: sum.splits)
qed

lemma traverse_length:
  "traverse f xs = Inr ys \<Longrightarrow> length ys = length xs"
  by (auto simp: traverse_Inr_iff dest: list_all2_lengthD)

lemma traverse_map_Inr [simp]: "traverse (\<lambda>x. Inr (g x)) xs = Inr (map g xs)"
  by (induction xs) auto

subsection \<open>Lemmas on \<open>join\<close>\<close>

lemma sublist_join:
  "c \<in> set xs \<Longrightarrow> sublist c (join sep xs)"
proof (induction sep xs rule: join.induct)
  case (3 sep x y zs)
  show ?case
  proof (cases "c = x")
    case False
    with "3.prems" have "sublist c (join sep (y # zs))" by (intro "3.IH") auto
    moreover have "sublist (join sep (y # zs)) ((x @ sep) @ join sep (y # zs))"
      by (rule sublist_append_leftI)
    ultimately show ?thesis by (auto intro: sublist_order.order_trans)
  qed simp
qed auto

lemma length_join:
  "xs \<noteq> [] \<Longrightarrow> length (join sep xs) = sum_list (map length xs) + (length xs - 1) * length sep"
  by (induction sep xs rule: join.induct) auto

lemma length_join_le:
  "\<forall>x \<in> set xs. length x \<le> n \<Longrightarrow>
   length (join sep xs) \<le> length xs * n + (length xs - 1) * length sep"
proof (cases "xs = []")
  case False
  assume "\<forall>x \<in> set xs. length x \<le> n"
  then have "sum_list (map length xs) \<le> length xs * n"
    using sum_list_mono [of xs length "\<lambda>_. n"] by (simp add: sum_list_triv)
  with False show ?thesis by (simp add: length_join)
qed simp

end
