(* ===== verification/Chunker.thy ===== *)
theory Chunker
  imports Prelude
begin

text \<open>
  The text chunker: \<^verbatim>\<open>RecursiveCharacterTextSplitter(chunk_size=1000,
  chunk_overlap=100)\<close> and its \<^verbatim>\<open>split_documents(docs)\<close>
  (\<^verbatim>\<open>src/app.py\<close> lines 36--37). The splitter is library code; its algorithm
  is taken from the spec (section 4.2): a window of \<open>chunk_size\<close> characters slides
  over the text, advancing by \<open>chunk_size - chunk_overlap\<close>, until the text is
  exhausted. \<^verbatim>\<open>split_documents\<close> splits every page document on its own and
  copies the page's metadata to its chunks, as the source hands it the loader's
  per-page list. The theory proves the spec's chunking properties: no empty chunk,
  every chunk but the last exactly \<open>chunk_size\<close> long, consecutive chunks sharing
  exactly \<open>chunk_overlap\<close> characters, the text rebuilt from its chunks, the number
  of chunks; and that chunks never span two pages. The same loop for any
  configuration is a partial function, proved to return exactly when its step is
  positive (or the text fits one window).
\<close>

record document =
  page_content :: string
  page :: nat

definition chunk_size :: nat where
  "chunk_size = 1000"

definition chunk_overlap :: nat where
  "chunk_overlap = 100"

abbreviation chunk_step :: nat where
  "chunk_step \<equiv> chunk_size - chunk_overlap"

function split_text :: "string \<Rightarrow> string list" where
  "split_text s =
     (if s = [] then []
      else if length s \<le> chunk_size then [s]
      else take chunk_size s # split_text (drop chunk_step s))"
  by pat_completeness auto
termination
  by (relation "measure length") (auto simp: chunk_size_def chunk_overlap_def)

declare split_text.simps [simp del]

definition split_documents :: "document list \<Rightarrow> document list" where
  "split_documents docs =
     concat (map (\<lambda>d. map (\<lambda>c. d\<lparr>page_content := c\<rparr>) (split_text (page_content d))) docs)"

text \<open>The text rebuilt from its chunks, each chunk after the first without its overlap.\<close>

definition merge_chunks :: "string list \<Rightarrow> string" where
  "merge_chunks cs = (case cs of [] \<Rightarrow> [] | c # rest \<Rightarrow> c @ concat (map (drop chunk_overlap) rest))"

text \<open>
  The spec's window loop for an arbitrary configuration: \<open>width\<close> characters per
  window, advancing by \<open>width - overlap\<close>. For a configuration whose step is zero
  the loop makes no progress, so it is a partial function whose value \<open>None\<close> is
  non-termination; \<open>split_text\<close> is the same loop at the source's
  configuration, written as a total function.
\<close>

partial_function (option) sliding_window :: "nat \<Rightarrow> nat \<Rightarrow> string \<Rightarrow> string list option" where
  "sliding_window width overlap s =
     (if s = [] then Some []
      else if length s \<le> width then Some [s]
      else Option.bind (sliding_window width overlap (drop (width - overlap) s))
             (\<lambda>cs. Some (take width s # cs)))"

subsection \<open>The configuration\<close>

lemma chunk_overlap_lt_size: "chunk_overlap < chunk_size"
  by (simp add: chunk_size_def chunk_overlap_def)

lemma chunk_step_pos: "0 < chunk_step"
  using chunk_overlap_lt_size by simp

lemma chunk_step_plus_overlap [simp]: "chunk_step + chunk_overlap = chunk_size"
  using chunk_overlap_lt_size by simp

lemma chunk_size_minus_step [simp]: "chunk_size - chunk_step = chunk_overlap"
  using chunk_overlap_lt_size by simp

subsection \<open>Unfolding \<open>split_text\<close>\<close>

lemma split_text_Nil [simp]: "split_text [] = []"
  by (simp add: split_text.simps)

lemma split_text_short:
  "s \<noteq> [] \<Longrightarrow> length s \<le> chunk_size \<Longrightarrow> split_text s = [s]"
  by (simp add: split_text.simps)

lemma split_text_long:
  "chunk_size < length s \<Longrightarrow> split_text s = take chunk_size s # split_text (drop chunk_step s)"
  by (subst split_text.simps) auto

lemmas split_text_unfold = split_text_Nil split_text_short split_text_long

lemma split_text_eq_Nil_iff [simp]: "split_text s = [] \<longleftrightarrow> s = []"
  by (cases "s = []"; cases "length s \<le> chunk_size") (auto simp: split_text_short split_text_long)

subsection \<open>Properties of the chunks\<close>

lemma split_text_chunk_props:
  "c \<in> set (split_text s) \<Longrightarrow> c \<noteq> [] \<and> length c \<le> chunk_size \<and> sublist c s"
proof (induction s rule: split_text.induct)
  case (1 s)
  show ?case
  proof (cases "chunk_size < length s")
    case True
    then have ne: "s \<noteq> []" by auto
    with "1.prems" True have "c = take chunk_size s \<or> c \<in> set (split_text (drop chunk_step s))"
      by (simp add: split_text_long)
    then show ?thesis
    proof
      assume "c = take chunk_size s"
      with True chunk_step_pos show ?thesis by auto
    next
      assume c: "c \<in> set (split_text (drop chunk_step s))"
      with ne True "1.IH" have "c \<noteq> [] \<and> length c \<le> chunk_size \<and> sublist c (drop chunk_step s)"
        by simp
      then show ?thesis by (auto intro: sublist_order.order_trans)
    qed
  next
    case False
    with "1.prems" show ?thesis
      by (cases "s = []") (auto simp: split_text_short)
  qed
qed

lemma split_text_full_chunks:
  "i < length (split_text s) - 1 \<Longrightarrow> length (split_text s ! i) = chunk_size"
proof (induction s arbitrary: i rule: split_text.induct)
  case (1 s)
  show ?case
  proof (cases "chunk_size < length s")
    case True
    then have "s \<noteq> []" by auto
    with True show ?thesis
      using "1.IH" [of "i - 1"] "1.prems" by (cases i) (auto simp: split_text_long)
  next
    case False
    with "1.prems" show ?thesis
      by (cases "s = []") (auto simp: split_text_short)
  qed
qed

text \<open>
  C12. Consecutive chunks overlap by exactly \<open>chunk_overlap\<close> characters: the part of
  a chunk after the first \<open>chunk_size - chunk_overlap\<close> characters is the prefix of
  length \<open>chunk_overlap\<close> of the next chunk.
\<close>

lemma split_text_consecutive_overlap:
  "Suc i < length (split_text s) \<Longrightarrow>
   drop chunk_step (split_text s ! i) = take chunk_overlap (split_text s ! Suc i)"
proof (induction s arbitrary: i rule: split_text.induct)
  case (1 s)
  show ?case
  proof (cases "chunk_size < length s")
    case True
    let ?t = "drop chunk_step s"
    have hd_t: "split_text ?t ! 0 = take chunk_size ?t \<or> split_text ?t ! 0 = ?t"
      using True by (cases "length ?t \<le> chunk_size") (auto simp: split_text_short split_text_long)
    show ?thesis
    proof (cases i)
      case 0
      have "drop chunk_step (take chunk_size s) = take chunk_overlap ?t"
        by (simp add: drop_take)
      also have "\<dots> = take chunk_overlap (split_text ?t ! 0)"
        using hd_t chunk_overlap_lt_size by (auto simp: min_def)
      finally show ?thesis using True 0 by (simp add: split_text_long)
    next
      case (Suc j)
      with "1.prems" True have "Suc j < length (split_text ?t)"
        by (simp add: split_text_long)
      moreover from True have "s \<noteq> []" by auto
      ultimately show ?thesis using True "1.IH" Suc by (simp add: split_text_long)
    qed
  next
    case False
    with "1.prems" show ?thesis
      by (cases "s = []") (auto simp: split_text_short)
  qed
qed

lemma hd_split_text: "s \<noteq> [] \<Longrightarrow> hd (split_text s) = take chunk_size s"
  by (cases "length s \<le> chunk_size") (auto simp: split_text_short split_text_long)

lemma concat_drop_overlap:
  assumes "merge_chunks (split_text t) = t" and "chunk_overlap \<le> length t"
  shows "concat (map (drop chunk_overlap) (split_text t)) = drop chunk_overlap t"
proof (cases "split_text t")
  case (Cons c rest)
  from Cons assms(2) have len: "chunk_overlap \<le> length c"
    using hd_split_text [of t] chunk_overlap_lt_size by (cases "t = []") auto
  from Cons assms(1) have t: "t = c @ concat (map (drop chunk_overlap) rest)"
    by (simp add: merge_chunks_def)
  have "concat (map (drop chunk_overlap) (split_text t)) =
        drop chunk_overlap c @ concat (map (drop chunk_overlap) rest)"
    using Cons by simp
  also have "\<dots> = drop chunk_overlap t"
    using len by (simp add: t)
  finally show ?thesis .
qed (use assms in simp)

text \<open>
  C10. Round trip of the chunker: the text is rebuilt exactly from its chunks by
  keeping the first chunk whole and dropping the \<open>chunk_overlap\<close> shared characters
  from the front of every later chunk.
\<close>

theorem split_text_roundtrip: "merge_chunks (split_text s) = s"
proof (induction s rule: split_text.induct)
  case (1 s)
  show ?case
  proof (cases "chunk_size < length s")
    case True
    let ?t = "drop chunk_step s"
    from True have "s \<noteq> []" by auto
    with True "1.IH" have "merge_chunks (split_text ?t) = ?t" by simp
    with True have "concat (map (drop chunk_overlap) (split_text ?t)) = drop chunk_size s"
      using concat_drop_overlap [of ?t] chunk_overlap_lt_size by simp
    with True show ?thesis by (simp add: split_text_long merge_chunks_def)
  next
    case False
    then show ?thesis
      by (cases "s = []") (auto simp: split_text_short merge_chunks_def)
  qed
qed

text \<open>
  C13. The number of chunks: none for the empty text, otherwise one plus the number of
  full window advances that still leave more than \<open>chunk_overlap\<close> characters.
\<close>

theorem length_split_text:
  "length (split_text s) = (if s = [] then 0 else 1 + (length s - chunk_overlap - 1) div chunk_step)"
proof (induction s rule: split_text.induct)
  case (1 s)
  show ?case
  proof (cases "chunk_size < length s")
    case True
    let ?x = "length s - chunk_size - 1"
    from True have ne: "s \<noteq> []" and t_ne: "drop chunk_step s \<noteq> []" by auto
    have eq: "length s - chunk_overlap - 1 = chunk_step + ?x"
      using True chunk_overlap_lt_size by simp
    have "length (drop chunk_step s) - chunk_overlap - 1 = ?x"
      using True chunk_overlap_lt_size by simp
    with ne t_ne True "1.IH" have "length (split_text s) = 2 + ?x div chunk_step"
      by (simp add: split_text_long)
    also have "\<dots> = 1 + (length s - chunk_overlap - 1) div chunk_step"
      using chunk_step_pos by (simp only: eq div_add_self1)
    finally show ?thesis using ne by simp
  next
    case False
    then show ?thesis
      using chunk_overlap_lt_size by (cases "s = []") (auto simp: split_text_short)
  qed
qed

subsection \<open>Splitting page documents\<close>

lemma split_documents_Nil [simp]: "split_documents [] = []"
  by (simp add: split_documents_def)

lemma split_documents_Cons [simp]:
  "split_documents (d # ds) =
     map (\<lambda>c. d\<lparr>page_content := c\<rparr>) (split_text (page_content d)) @ split_documents ds"
  by (simp add: split_documents_def)

lemma split_documents_append [simp]:
  "split_documents (ds @ es) = split_documents ds @ split_documents es"
  by (simp add: split_documents_def)

lemma set_split_documents:
  "set (split_documents docs) =
     (\<Union>d \<in> set docs. (\<lambda>c. d\<lparr>page_content := c\<rparr>) ` set (split_text (page_content d)))"
  by (auto simp: split_documents_def)

lemma split_documents_content_props:
  "c \<in> set (split_documents docs) \<Longrightarrow>
   page_content c \<noteq> [] \<and> length (page_content c) \<le> chunk_size"
  using split_text_chunk_props by (fastforce simp: set_split_documents)

text \<open>
  C11. Shape of the chunks: the empty text gives no chunk and any other text at least
  one; no chunk is empty or longer than \<open>chunk_size\<close>; every chunk but the last is
  exactly \<open>chunk_size\<close> characters long.
\<close>

theorem split_text_shape:
  "(split_text s = [] \<longleftrightarrow> s = []) \<and>
   (\<forall>c \<in> set (split_text s). c \<noteq> [] \<and> length c \<le> chunk_size) \<and>
   (\<forall>i < length (split_text s) - 1. length (split_text s ! i) = chunk_size)"
  using split_text_chunk_props split_text_full_chunks by simp

text \<open>
  C14. \<^verbatim>\<open>split_documents\<close> keeps pages apart: every chunk it returns carries the
  metadata of one page document and its text is a contiguous piece of that page.
\<close>

theorem split_documents_within_page:
  "c \<in> set (split_documents docs) \<Longrightarrow>
   \<exists>d \<in> set docs. page c = page d \<and> sublist (page_content c) (page_content d)"
  using split_text_chunk_props by (fastforce simp: set_split_documents)

subsection \<open>The window loop for any configuration\<close>

text \<open>
  C26. The window loop returns on every text when the overlap is smaller than the
  window, whatever the two numbers are.
\<close>

theorem sliding_window_terminates:
  assumes "overlap < width"
  shows "\<exists>cs. sliding_window width overlap s = Some cs"
proof (induction s rule: length_induct)
  case (1 s)
  show ?case
  proof (cases "s = [] \<or> length s \<le> width")
    case True
    then show ?thesis by (subst sliding_window.simps) auto
  next
    case False
    then have "length (drop (width - overlap) s) < length s" using assms by auto
    with "1" obtain cs where "sliding_window width overlap (drop (width - overlap) s) = Some cs" by blast
    with False show ?thesis by (subst sliding_window.simps) simp
  qed
qed

text \<open>
  C27. When the overlap is at least the window, the loop never returns on a text
  longer than one window: it keeps re-splitting the same text.
\<close>

theorem sliding_window_diverges:
  assumes "width \<le> overlap" and "width < length s"
  shows "sliding_window width overlap s = None"
proof -
  have "w \<le> v \<longrightarrow> w < length t \<longrightarrow> False" if "sliding_window w v t = Some cs" for w v t cs
  proof (rule sliding_window.raw_induct [where P = "\<lambda>w v t cs. w \<le> v \<longrightarrow> w < length t \<longrightarrow> False", OF _ that])
    fix rec :: "nat \<Rightarrow> nat \<Rightarrow> string \<Rightarrow> string list option" and w v t cs
    assume IH: "\<And>w v t cs. rec w v t = Some cs \<Longrightarrow> w \<le> v \<longrightarrow> w < length t \<longrightarrow> False"
      and step: "(if t = [] then Some [] else if length t \<le> w then Some [t]
                  else Option.bind (rec w v (drop (w - v) t)) (\<lambda>cs. Some (take w t # cs))) = Some cs"
    show "w \<le> v \<longrightarrow> w < length t \<longrightarrow> False"
    proof (intro impI)
      assume wv: "w \<le> v" and long: "w < length t"
      then obtain ys where "rec w v t = Some ys"
        using step by (auto simp: bind_eq_Some_conv split: if_splits)
      from IH [OF this] wv long show False by simp
    qed
  qed
  with assms show ?thesis by (cases "sliding_window width overlap s") auto
qed

subsection \<open>Witnesses\<close>

theorem sliding_window_terminates_witness:
  "(1::nat) < 3 \<and> (\<exists>cs. sliding_window 3 1 ''abcdefg'' = Some cs)"
  using sliding_window_terminates [of 1 3 "''abcdefg''"] by simp

theorem sliding_window_diverges_witness:
  "(2::nat) \<le> 2 \<and> 2 < length ''abc'' \<and> sliding_window 2 2 ''abc'' = None"
  using sliding_window_diverges [of 2 2 "''abc''"] by simp

lemma split_text_1500:
  "split_text (replicate 1500 CHR ''a'') = [replicate 1000 CHR ''a'', replicate 600 CHR ''a'']"
  by (simp add: split_text_long split_text_short chunk_size_def chunk_overlap_def)

theorem split_text_shape_witness:
  "split_text (replicate 1500 CHR ''a'') \<noteq> [] \<and>
   replicate 600 CHR ''a'' \<noteq> [] \<and> length (replicate 600 CHR ''a'') \<le> chunk_size \<and>
   length (split_text (replicate 1500 CHR ''a'') ! 0) = chunk_size"
proof -
  have "replicate 600 CHR ''a'' \<in> set (split_text (replicate 1500 CHR ''a''))"
    by (simp add: split_text_1500)
  then show ?thesis using split_text_shape [of "replicate 1500 CHR ''a''"]
    by (simp add: split_text_1500)
qed

theorem split_text_consecutive_overlap_witness:
  "Suc 0 < length (split_text (replicate 1500 CHR ''a'')) \<and>
   drop chunk_step (split_text (replicate 1500 CHR ''a'') ! 0) =
   take chunk_overlap (split_text (replicate 1500 CHR ''a'') ! Suc 0)"
proof -
  have h: "Suc 0 < length (split_text (replicate 1500 CHR ''a''))"
    by (simp add: split_text_1500)
  show ?thesis using h split_text_consecutive_overlap [OF h] by simp
qed

theorem split_documents_within_page_witness:
  "\<lparr>page_content = ''cd'', page = 1\<rparr> \<in> set (split_documents
      [\<lparr>page_content = ''ab'', page = 0\<rparr>, \<lparr>page_content = ''cd'', page = 1\<rparr>]) \<and>
   (\<exists>d \<in> set [\<lparr>page_content = ''ab'', page = 0\<rparr>, \<lparr>page_content = ''cd'', page = 1\<rparr>].
      page \<lparr>page_content = ''cd'', page = 1::nat\<rparr> = page d \<and> sublist ''cd'' (page_content d))"
proof -
  have h: "\<lparr>page_content = ''cd'', page = 1\<rparr> \<in> set (split_documents
      [\<lparr>page_content = ''ab'', page = 0\<rparr>, \<lparr>page_content = ''cd'', page = 1\<rparr>])"
    by (simp add: split_text_short chunk_size_def)
  show ?thesis using h split_documents_within_page [OF h] by simp
qed

end
