(* ===== verification/VectorIndex.thy ===== *)
theory VectorIndex
  imports Chunker
begin

text \<open>
  The vector index: \<^verbatim>\<open>Chroma.from_documents(documents=splits, embedding=embeddings)\<close>
  and \<^verbatim>\<open>vectorstore.as_retriever()\<close> (\<^verbatim>\<open>src/app.py\<close> lines 39--43). Chroma is
  library code, so the index is modelled from the spec (section 4.4): a store is the
  list of (chunk, vector) pairs in insertion order; building it embeds every chunk with
  one batched call of the embedding service, which fails as a whole when any chunk
  fails; a similarity search ranks the store by the distance of each vector to the
  query vector, stably (ties keep insertion order, the spec's example of a
  deterministic tie-break, which Chroma's approximate search does not promise and no
  theorem of the development relies on), and returns the first \<open>k\<close> chunks, fewer
  when the store holds fewer. The spec's \<open>EmptyIndexError\<close> is raised by a search
  before the index is built, which the app never does: a chain exists only once its
  index is built. The metric is a parameter
  (any linear order on distances), so the lemmas hold for Chroma's squared L2 distance
  and for cosine distance alike. The retriever made by \<^verbatim>\<open>as_retriever()\<close> searches
  with the library default \<open>k = 4\<close>. A scanning index with a bounded buffer,
  \<open>scan_search\<close>, is proved to answer exactly as the stable ranking.
\<close>

type_synonym 'v store = "(document \<times> 'v) list"

definition from_documents :: "(string \<Rightarrow> error + 'v) \<Rightarrow> document list \<Rightarrow> error + 'v store" where
  "from_documents embed_fn docs =
     sbind (traverse embed_fn (map page_content docs)) (\<lambda>vs. Inr (zip docs vs))"

definition search_k :: nat where
  "search_k = 4"

definition ranked :: "('v \<Rightarrow> 'v \<Rightarrow> 's::linorder) \<Rightarrow> 'v \<Rightarrow> 'v store \<Rightarrow> 'v store" where
  "ranked distance q st = sort_key (\<lambda>e. distance q (snd e)) st"

definition similarity_search ::
  "('v \<Rightarrow> 'v \<Rightarrow> 's::linorder) \<Rightarrow> nat \<Rightarrow> 'v \<Rightarrow> 'v store \<Rightarrow> error + document list" where
  "similarity_search distance k q st =
     Inr (map fst (take k (ranked distance q st)))"

text \<open>
  An index that answers by one scan over the store in insertion order, keeping a
  buffer of at most \<open>k\<close> entries ordered by distance, each new entry inserted
  after those at the same distance (the "in-memory array scan" of spec section 9).
\<close>

fun insert_ranked :: "('a \<Rightarrow> 's::linorder) \<Rightarrow> 'a \<Rightarrow> 'a list \<Rightarrow> 'a list" where
  "insert_ranked f x [] = [x]"
| "insert_ranked f x (y # ys) = (if f x < f y then x # y # ys else y # insert_ranked f x ys)"

definition scan_top_k :: "('v \<Rightarrow> 'v \<Rightarrow> 's::linorder) \<Rightarrow> nat \<Rightarrow> 'v \<Rightarrow> 'v store \<Rightarrow> 'v store" where
  "scan_top_k distance k q st =
     foldl (\<lambda>acc e. take k (insert_ranked (\<lambda>e. distance q (snd e)) e acc)) [] st"

definition scan_search ::
  "('v \<Rightarrow> 'v \<Rightarrow> 's::linorder) \<Rightarrow> nat \<Rightarrow> 'v \<Rightarrow> 'v store \<Rightarrow> error + document list" where
  "scan_search distance k q st =
     Inr (map fst (scan_top_k distance k q st))"

subsection \<open>Building the store\<close>

lemma from_documents_Inr:
  "from_documents embed_fn docs = Inr st \<longleftrightarrow>
   (\<exists>vs. traverse embed_fn (map page_content docs) = Inr vs \<and> st = zip docs vs)"
  by (auto simp: from_documents_def sbind_eq_Inr_iff)

lemma from_documents_docs:
  "from_documents embed_fn docs = Inr st \<Longrightarrow> map fst st = docs"
  by (auto simp: from_documents_Inr dest: traverse_length)

lemma from_documents_vectors:
  "from_documents embed_fn docs = Inr st \<Longrightarrow> (d, v) \<in> set st \<Longrightarrow> embed_fn (page_content d) = Inr v"
  by (auto simp: from_documents_Inr traverse_Inr_iff list_all2_conv_all_nth set_zip)

subsection \<open>Ranking\<close>

lemma mset_ranked [simp]: "mset (ranked distance q st) = mset st"
  by (simp add: ranked_def)

lemma set_ranked [simp]: "set (ranked distance q st) = set st"
  by (simp add: ranked_def)

lemma length_ranked [simp]: "length (ranked distance q st) = length st"
  by (simp add: ranked_def)

lemma sorted_ranked: "sorted (map (\<lambda>e. distance q (snd e)) (ranked distance q st))"
  by (simp add: ranked_def)

lemma mset_take_drop: "mset xs = mset (take k xs) + mset (drop k xs)"
  by (metis append_take_drop_id mset_append)

lemma ranked_take_le_drop:
  "e \<in> set (take k (ranked distance q st)) \<Longrightarrow> e' \<in> set (drop k (ranked distance q st)) \<Longrightarrow>
   distance q (snd e) \<le> distance q (snd e')"
proof -
  let ?f = "\<lambda>e. distance q (snd e)" and ?r = "ranked distance q st"
  have "sorted (map ?f (take k ?r) @ map ?f (drop k ?r))"
    using sorted_ranked [of distance q st] by (simp flip: map_append)
  then have "\<forall>x \<in> set (map ?f (take k ?r)). \<forall>y \<in> set (map ?f (drop k ?r)). x \<le> y"
    by (simp only: sorted_append) blast
  moreover assume "e \<in> set (take k ?r)" and "e' \<in> set (drop k ?r)"
  ultimately show ?thesis by simp
qed

lemma similarity_search_Inr:
  "similarity_search distance k q st = Inr r \<longleftrightarrow>
   r = map fst (take k (ranked distance q st))"
  by (auto simp: similarity_search_def)

subsection \<open>The scanning index\<close>

lemma mset_insert_ranked [simp]: "mset (insert_ranked f x ys) = add_mset x (mset ys)"
  by (induction ys) auto

lemma set_insert_ranked [simp]: "set (insert_ranked f x ys) = insert x (set ys)"
  by (induction ys) auto

lemma sorted_insert_ranked:
  "sorted (map f ys) \<Longrightarrow> sorted (map f (insert_ranked f x ys))"
  by (induction ys) auto

lemma filter_insert_ranked:
  "sorted (map f ys) \<Longrightarrow>
   filter (\<lambda>y. f y = c) (insert_ranked f x ys) = filter (\<lambda>y. f y = c) ys @ (if f x = c then [x] else [])"
proof (induction ys)
  case Nil
  then show ?case by simp
next
  case (Cons y ys)
  show ?case
  proof (cases "f x < f y")
    case True
    with Cons.prems have "\<forall>z \<in> set (y # ys). f x < f z" by auto
    then have "filter (\<lambda>z. f z = f x) (y # ys) = []" by (auto simp: filter_empty_conv)
    with True show ?thesis by auto
  next
    case False
    with Cons show ?thesis by simp
  qed
qed

lemma sort_key_snoc: "sort_key f (xs @ [x]) = insert_ranked f x (sort_key f xs)"
proof (rule properties_for_sort_key)
  show "mset (insert_ranked f x (sort_key f xs)) = mset (xs @ [x])" by simp
  show "sorted (map f (insert_ranked f x (sort_key f xs)))" by (simp add: sorted_insert_ranked)
  show "filter (\<lambda>y. f k = f y) (insert_ranked f x (sort_key f xs)) = filter (\<lambda>y. f k = f y) (xs @ [x])"
    if "k \<in> set (insert_ranked f x (sort_key f xs))" for k
    using filter_insert_ranked [of f "sort_key f xs" "f k" x] sort_key_stable [of f "f k" xs]
    by (simp add: eq_commute [of "f k"])
qed

lemma take_insert_ranked_take:
  "sorted (map f ys) \<Longrightarrow> take k (insert_ranked f x (take k ys)) = take k (insert_ranked f x ys)"
proof (induction ys arbitrary: k)
  case Nil
  then show ?case by simp
next
  case (Cons y ys)
  then show ?case by (cases k) (auto simp: take_Cons')
qed

lemma scan_top_k_sort:
  "scan_top_k distance k q st = take k (ranked distance q st)"
proof (induction st rule: rev_induct)
  case Nil
  then show ?case by (simp add: scan_top_k_def ranked_def)
next
  case (snoc e st)
  let ?f = "\<lambda>e. distance q (snd e)"
  have "scan_top_k distance k q (st @ [e]) = take k (insert_ranked ?f e (take k (sort_key ?f st)))"
    using snoc.IH by (simp add: scan_top_k_def ranked_def)
  also have "\<dots> = take k (insert_ranked ?f e (sort_key ?f st))"
    by (simp add: take_insert_ranked_take)
  also have "\<dots> = take k (ranked distance q (st @ [e]))"
    by (simp add: ranked_def sort_key_snoc)
  finally show ?case .
qed

text \<open>
  The scanning index, with its bounded buffer, answers every search exactly as the
  stable ranking does: same chunks, same order, for every metric and every \<open>k\<close>.
\<close>

theorem scan_search_eq: "scan_search distance k q st = similarity_search distance k q st"
  by (simp add: scan_search_def similarity_search_def scan_top_k_sort)

subsection \<open>The retrieval contract\<close>

text \<open>
  For any metric and any \<open>k\<close>: the bounds of the result and top-\<open>k\<close> correctness.
\<close>

lemma search_bounds:
  "similarity_search distance k q st = Inr r \<Longrightarrow>
   length r = min k (length st) \<and> set r \<subseteq> fst ` set st"
proof -
  have "fst ` set (take k (ranked distance q st)) \<subseteq> fst ` set st"
    using set_take_subset [of k "ranked distance q st"] by (simp add: image_mono)
  then show "similarity_search distance k q st = Inr r \<Longrightarrow> length r = min k (length st) \<and> set r \<subseteq> fst ` set st"
    by (auto simp: similarity_search_def)
qed

lemma search_top_k:
  "similarity_search distance k q st = Inr r \<Longrightarrow>
   \<exists>es. r = map fst es \<and> mset es \<subseteq># mset st \<and>
     sorted (map (\<lambda>e. distance q (snd e)) es) \<and>
     (\<forall>e \<in> set es. \<forall>e' \<in># mset st - mset es. distance q (snd e) \<le> distance q (snd e'))"
proof -
  assume "similarity_search distance k q st = Inr r"
  then have r: "r = map fst (take k (ranked distance q st))"
    by (simp add: similarity_search_Inr)
  let ?es = "take k (ranked distance q st)"
  have split: "mset st = mset ?es + mset (drop k (ranked distance q st))"
    using mset_take_drop [of "ranked distance q st" k] by simp
  then have "mset st - mset ?es = mset (drop k (ranked distance q st))" by simp
  moreover have "sorted (map (\<lambda>e. distance q (snd e)) ?es)"
    using sorted_ranked [of distance q st] by (simp add: sorted_wrt_take flip: take_map)
  ultimately show ?thesis
    using r split ranked_take_le_drop [of _ k distance q st]
    by (intro exI [of _ ?es]) (auto simp: mset_subset_eq_exists_conv)
qed

end
