(* ===== verification/QAChain.thy ===== *)
theory QAChain
  imports VectorIndex
begin

text \<open>
  The question-answering chain. The external collaborators of the spec (PDF loader,
  embedding API, chat API) form the interface \<open>services\<close>: every lemma here holds
  for any services, and a concrete run picks one. The chain built by
  \<^verbatim>\<open>get_qa_chain_from_pdf\<close> (\<^verbatim>\<open>src/app.py\<close> lines 36--51) is the record
  \<open>qa_chain\<close>: the Chroma store of the page chunks, the embedding model it was built
  with, the retriever's \<open>k\<close>, the chat model configuration
  (\<^verbatim>\<open>gemini-pro\<close> at temperature 0.3) and the chain type \<^verbatim>\<open>"stuff"\<close>.
  \<open>build_qa_chain\<close> is the part of the \<^verbatim>\<open>try\<close> block after the loader:
  split, embed and index. \<open>qa_run\<close> is \<^verbatim>\<open>qa_chain.run(user_question)\<close>
  (line 91), the library's \<^verbatim>\<open>RetrievalQA\<close> modelled from the spec (section 4.5):
  embed the question with the index's model, retrieve, stuff the chunks into the
  prompt template, ask the chat model; an empty completion is a \<open>GenerationError\<close>.
  Chroma's default metric, the squared Euclidean distance, ranks the store.
\<close>

type_synonym vector = "real list"

record llm_config =
  llm_model :: string
  temperature :: real

record services =
  load_pdf :: "bytes \<Rightarrow> error + string list"
  embed :: "string \<Rightarrow> string \<Rightarrow> error + vector"
  chat :: "llm_config \<Rightarrow> string \<Rightarrow> error + string"

record qa_chain =
  vectorstore :: "vector store"
  embedding_model :: string
  retriever_k :: nat
  llm :: llm_config
  chain_type :: string

definition chroma_distance :: "vector \<Rightarrow> vector \<Rightarrow> real" where
  "chroma_distance u v = sum_list (map (\<lambda>(a, b). (a - b)\<^sup>2) (zip u v))"

definition embedding_model_name :: string where
  "embedding_model_name = ''models/embedding-001''"

definition gemini_pro :: llm_config where
  "gemini_pro = \<lparr>llm_model = ''gemini-pro'', temperature = 3 / 10\<rparr>"

text \<open>\<^verbatim>\<open>PyPDFLoader.load()\<close>: one document per page, numbered from 0.\<close>

definition pages_to_documents :: "string list \<Rightarrow> document list" where
  "pages_to_documents ps = map (\<lambda>(i, t). \<lparr>page_content = t, page = i\<rparr>) (zip [0..<length ps] ps)"

definition build_qa_chain :: "services \<Rightarrow> string list \<Rightarrow> error + qa_chain" where
  "build_qa_chain svc pages =
     (let splits = split_documents (pages_to_documents pages)
      in sbind (from_documents (embed svc embedding_model_name) splits)
           (\<lambda>vs. Inr \<lparr>vectorstore = vs, embedding_model = embedding_model_name,
                      retriever_k = search_k, llm = gemini_pro, chain_type = ''stuff''\<rparr>))"

definition qa_instructions :: string where
  "qa_instructions = ''Use the following pieces of context to answer the question at the end. If you don't know the answer, just say that you don't know, don't try to make up an answer.''"

definition prompt_template :: "string \<Rightarrow> string \<Rightarrow> string" where
  "prompt_template context question =
     qa_instructions @ [newline, newline] @ context @ [newline, newline] @
     ''Question: '' @ question @ [newline] @ ''Helpful Answer:''"

definition stuff_prompt :: "document list \<Rightarrow> string \<Rightarrow> string" where
  "stuff_prompt docs question = prompt_template (join [newline, newline] (map page_content docs)) question"

definition qa_run :: "services \<Rightarrow> qa_chain \<Rightarrow> string \<Rightarrow> error + string" where
  "qa_run svc c question =
     sbind (embed svc (embedding_model c) question) (\<lambda>qv.
     sbind (similarity_search chroma_distance (retriever_k c) qv (vectorstore c)) (\<lambda>docs.
     sbind (chat svc (llm c) (stuff_prompt docs question)) (\<lambda>answer.
       if answer = [] then Inl GenerationError else Inr answer)))"

text \<open>Example services for the witnesses: a loader that refuses empty files, an
  embedding that maps a text to its length, a chat model with a fixed answer.\<close>

definition demo_services :: services where
  "demo_services =
     \<lparr>load_pdf = (\<lambda>b. if b = [] then Inl LoadError else Inr [''page one'']),
      embed = (\<lambda>m t. Inr [of_nat (length t)]),
      chat = (\<lambda>cfg p. Inr ''answer'')\<rparr>"

definition demo_chain :: qa_chain where
  "demo_chain =
     \<lparr>vectorstore = [(\<lparr>page_content = ''alpha'', page = 0\<rparr>, [5]), (\<lparr>page_content = ''be'', page = 1\<rparr>, [2])],
      embedding_model = embedding_model_name, retriever_k = search_k, llm = gemini_pro,
      chain_type = ''stuff''\<rparr>"

text \<open>
  The types of a built chain that Python leaves implicit: every vector has the
  dimension of the embedding model (the spec's "fixed-dimension" vectors, which Chroma
  needs to compare them), every chunk is non-empty and at most \<open>chunk_size\<close> long,
  and the chain carries the source's configuration. \<open>embeds_dim svc n\<close> says the
  embedding service returns vectors of dimension \<open>n\<close>.
\<close>

definition embeds_dim :: "services \<Rightarrow> nat \<Rightarrow> bool" where
  "embeds_dim svc n \<longleftrightarrow> (\<forall>m t v. embed svc m t = Inr v \<longrightarrow> length v = n)"

definition chain_wf :: "nat \<Rightarrow> qa_chain \<Rightarrow> bool" where
  "chain_wf n c \<longleftrightarrow>
     embedding_model c = embedding_model_name \<and> retriever_k c = search_k \<and> llm c = gemini_pro \<and>
     chain_type c = ''stuff'' \<and>
     (\<forall>e \<in> set (vectorstore c).
        page_content (fst e) \<noteq> [] \<and> length (page_content (fst e)) \<le> chunk_size \<and> length (snd e) = n)"

subsection \<open>Building the chain\<close>

lemma build_qa_chain_Inr:
  "build_qa_chain svc pages = Inr c \<longleftrightarrow>
   (\<exists>vs. from_documents (embed svc embedding_model_name) (split_documents (pages_to_documents pages)) = Inr vs \<and>
     c = \<lparr>vectorstore = vs, embedding_model = embedding_model_name,
          retriever_k = search_k, llm = gemini_pro, chain_type = ''stuff''\<rparr>)"
  by (auto simp: build_qa_chain_def sbind_eq_Inr_iff Let_def)

lemma build_qa_chain_fields:
  "build_qa_chain svc pages = Inr c \<Longrightarrow>
   embedding_model c = embedding_model_name \<and> retriever_k c = search_k \<and> llm c = gemini_pro"
  by (auto simp: build_qa_chain_Inr)

lemma build_qa_chain_store_docs:
  "build_qa_chain svc pages = Inr c \<Longrightarrow>
   map fst (vectorstore c) = split_documents (pages_to_documents pages)"
  by (auto simp: build_qa_chain_Inr dest: from_documents_docs)

lemma build_qa_chain_chunk_len:
  "build_qa_chain svc pages = Inr c \<Longrightarrow> e \<in> set (vectorstore c) \<Longrightarrow>
   length (page_content (fst e)) \<le> chunk_size"
  using split_documents_content_props build_qa_chain_store_docs
  by (metis image_eqI list.set_map)

lemma build_qa_chain_wf:
  assumes dim: "embeds_dim svc n" and b: "build_qa_chain svc pages = Inr c"
  shows "chain_wf n c"
proof -
  obtain vs where fd: "from_documents (embed svc embedding_model_name) (split_documents (pages_to_documents pages)) = Inr vs"
    and c: "c = \<lparr>vectorstore = vs, embedding_model = embedding_model_name,
          retriever_k = search_k, llm = gemini_pro, chain_type = ''stuff''\<rparr>"
    using b by (auto simp: build_qa_chain_Inr)
  have "page_content d \<noteq> [] \<and> length (page_content d) \<le> chunk_size \<and> length v = n"
    if "(d, v) \<in> set vs" for d v
  proof -
    have "d \<in> set (split_documents (pages_to_documents pages))"
      using that from_documents_docs [OF fd] by (metis fst_conv image_eqI list.set_map)
    moreover have "embed svc embedding_model_name (page_content d) = Inr v"
      using from_documents_vectors [OF fd that] .
    ultimately show ?thesis using split_documents_content_props dim by (auto simp: embeds_dim_def)
  qed
  then show ?thesis using c by (auto simp: chain_wf_def)
qed

subsection \<open>Running the chain\<close>

lemma qa_run_Inr:
  "qa_run svc c q = Inr ans \<longleftrightarrow>
   (\<exists>qv docs. embed svc (embedding_model c) q = Inr qv \<and>
      similarity_search chroma_distance (retriever_k c) qv (vectorstore c) = Inr docs \<and>
      chat svc (llm c) (stuff_prompt docs q) = Inr ans \<and> ans \<noteq> [])"
  by (auto simp: qa_run_def sbind_eq_Inr_iff)

lemma sublist_prompt_context: "sublist c (prompt_template c q)"
  unfolding prompt_template_def
  using sublist_appendI [of c "qa_instructions @ [newline, newline]"
      "[newline, newline] @ ''Question: '' @ q @ [newline] @ ''Helpful Answer:''"]
  by simp

lemma sublist_prompt_question: "sublist q (prompt_template c q)"
  unfolding prompt_template_def
  using sublist_appendI [of q "qa_instructions @ [newline, newline] @ c @ [newline, newline] @ ''Question: ''"
      "[newline] @ ''Helpful Answer:''"]
  by simp

lemma sublist_stuff_prompt:
  "d \<in> set docs \<Longrightarrow> sublist (page_content d) (stuff_prompt docs q)"
  using sublist_join [of "page_content d" "map page_content docs" "[newline, newline]"]
    sublist_prompt_context [of "join [newline, newline] (map page_content docs)" q]
  by (auto simp: stuff_prompt_def intro: sublist_order.order_trans)

lemma question_in_stuff_prompt: "sublist q (stuff_prompt docs q)"
  by (simp add: stuff_prompt_def sublist_prompt_question)

lemma length_stuff_prompt:
  "length (stuff_prompt docs q) =
   length (prompt_template [] []) + length (join [newline, newline] (map page_content docs)) + length q"
  by (simp add: stuff_prompt_def prompt_template_def)

subsection \<open>The retriever and the chain the app builds\<close>


lemma search_k_4: "search_k = 4" by (simp add: search_k_def)

lemma build_store_facts:
  assumes "build_qa_chain svc pages = Inr c"
  shows "vectorstore c = [] \<longleftrightarrow> split_documents (pages_to_documents pages) = []"
    and "length (vectorstore c) = length (split_documents (pages_to_documents pages))"
    and "fst ` set (vectorstore c) = set (split_documents (pages_to_documents pages))"
    and "retriever_k c = 4"
proof -
  have m: "map fst (vectorstore c) = split_documents (pages_to_documents pages)"
    by (rule build_qa_chain_store_docs [OF assms])
  show "vectorstore c = [] \<longleftrightarrow> split_documents (pages_to_documents pages) = []"
    using m by (metis Nil_is_map_conv)
  show "length (vectorstore c) = length (split_documents (pages_to_documents pages))"
    using m by (metis length_map)
  show "fst ` set (vectorstore c) = set (split_documents (pages_to_documents pages))"
    using m by (metis list.set_map)
  show "retriever_k c = 4"
    using build_qa_chain_fields [OF assms] by (simp add: search_k_4)
qed

text \<open>
  C15. The retriever of a chain the app built always answers and searches only the
  chunks of the uploaded document: it returns \<open>min 4 n\<close> of the document's \<open>n\<close>
  chunks and no other text, none when the document has no text.
\<close>

theorem retriever_bounds:
  assumes "build_qa_chain svc pages = Inr c"
  shows "\<exists>r. similarity_search chroma_distance (retriever_k c) q (vectorstore c) = Inr r \<and>
           length r = min 4 (length (split_documents (pages_to_documents pages))) \<and>
           set r \<subseteq> set (split_documents (pages_to_documents pages))"
proof -
  obtain r where r: "similarity_search chroma_distance (retriever_k c) q (vectorstore c) = Inr r"
    by (simp add: similarity_search_def)
  from search_bounds [OF r] build_store_facts [OF assms] r show ?thesis by auto
qed

text \<open>
  C16. The retriever returns the nearest chunks: the vector stored with each chunk is
  the chunk's embedding under \<^verbatim>\<open>models/embedding-001\<close>, and the returned entries
  (at most 4) are ordered by Chroma's distance to the query vector, none of them
  farther than an entry left out.
\<close>

theorem retriever_top_k:
  assumes "build_qa_chain svc pages = Inr c"
    and "similarity_search chroma_distance (retriever_k c) q (vectorstore c) = Inr r"
  shows "\<exists>es. r = map fst es \<and> length es = min 4 (length (vectorstore c)) \<and>
           mset es \<subseteq># mset (vectorstore c) \<and>
           (\<forall>(d, v) \<in> set (vectorstore c). embed svc embedding_model_name (page_content d) = Inr v) \<and>
           sorted (map (\<lambda>e. chroma_distance q (snd e)) es) \<and>
           (\<forall>e \<in> set es. \<forall>e' \<in># mset (vectorstore c) - mset es.
              chroma_distance q (snd e) \<le> chroma_distance q (snd e'))"
proof -
  from search_top_k [OF assms(2)] obtain es where es: "r = map fst es" "mset es \<subseteq># mset (vectorstore c)"
      "sorted (map (\<lambda>e. chroma_distance q (snd e)) es)"
      "\<forall>e \<in> set es. \<forall>e' \<in># mset (vectorstore c) - mset es. chroma_distance q (snd e) \<le> chroma_distance q (snd e')"
    by blast
  have "length es = min 4 (length (vectorstore c))"
    using search_bounds [of chroma_distance "retriever_k c" q "vectorstore c" r] assms es(1)
      build_store_facts(4) [OF assms(1)] by simp
  moreover have "\<forall>(d, v) \<in> set (vectorstore c). embed svc embedding_model_name (page_content d) = Inr v"
    using assms(1) by (auto simp: build_qa_chain_Inr intro: from_documents_vectors)
  ultimately show ?thesis using es by blast
qed

text \<open>
  C17. An answer of the chain the app built comes from one round of the "stuff" recipe:
  the question is embedded with the same model as the chunks, the 4 nearest chunks are
  retrieved, every retrieved chunk and the question appear verbatim in the prompt, and
  \<^verbatim>\<open>gemini-pro\<close> at temperature 0.3 returned the answer, which is not empty.
\<close>

theorem qa_run_answer:
  assumes "build_qa_chain svc pages = Inr c" and "qa_run svc c q = Inr ans"
  shows "\<exists>qv docs. embed svc embedding_model_name q = Inr qv \<and>
           similarity_search chroma_distance 4 qv (vectorstore c) = Inr docs \<and>
           chat svc gemini_pro (stuff_prompt docs q) = Inr ans \<and> ans \<noteq> [] \<and>
           (\<forall>d \<in> set docs. sublist (page_content d) (stuff_prompt docs q)) \<and>
           sublist q (stuff_prompt docs q)"
  using assms(2) build_qa_chain_fields [OF assms(1)] sublist_stuff_prompt question_in_stuff_prompt
  by (auto simp: qa_run_Inr search_k_4)

text \<open>
  C18. The context block is bounded: the prompt sent to the chat model is at most the
  template, four chunks of at most \<open>chunk_size\<close> characters with their three
  separators, and the question.
\<close>

theorem stuff_prompt_bounded:
  assumes "build_qa_chain svc pages = Inr c"
    and "similarity_search chroma_distance (retriever_k c) qv (vectorstore c) = Inr docs"
  shows "length (stuff_prompt docs q) \<le> length (prompt_template [] []) + 4 * chunk_size + 6 + length q"
proof -
  have len: "length docs \<le> 4"
    using search_bounds [of chroma_distance "retriever_k c" qv "vectorstore c" docs] assms(2)
      build_store_facts(4) [OF assms(1)] by simp
  have "\<forall>x \<in> set (map page_content docs). length x \<le> chunk_size"
  proof
    fix x assume "x \<in> set (map page_content docs)"
    then obtain d where d: "d \<in> set docs" "x = page_content d" by auto
    have "set docs \<subseteq> fst ` set (vectorstore c)"
      using search_bounds [of chroma_distance "retriever_k c" qv "vectorstore c" docs] assms(2) by simp
    with d obtain e where "e \<in> set (vectorstore c)" "d = fst e" by auto
    with d build_qa_chain_chunk_len [OF assms(1)] show "length x \<le> chunk_size" by simp
  qed
  then have "length (join [newline, newline] (map page_content docs)) \<le>
      length docs * chunk_size + (length docs - 1) * 2"
    using length_join_le [of "map page_content docs" chunk_size "[newline, newline]"] by simp
  also have "\<dots> \<le> 4 * chunk_size + 6"
    using len by (intro add_mono mult_right_mono) auto
  finally show ?thesis by (simp add: length_stuff_prompt)
qed

subsection \<open>Witnesses\<close>

lemma demo_build_chain: "build_qa_chain demo_services [''alpha'', ''be''] = Inr demo_chain"
  by (simp add: build_qa_chain_def demo_services_def from_documents_def pages_to_documents_def
      split_text_short chunk_size_def demo_chain_def upt_conv_Cons)

lemma demo_retrieve:
  "similarity_search chroma_distance (retriever_k demo_chain) [3] (vectorstore demo_chain) =
     Inr [\<lparr>page_content = ''be'', page = 1\<rparr>, \<lparr>page_content = ''alpha'', page = 0\<rparr>]"
  by (simp add: similarity_search_def ranked_def demo_chain_def chroma_distance_def search_k_def)

theorem retriever_bounds_witness:
  "similarity_search chroma_distance (retriever_k demo_chain) [3] (vectorstore demo_chain) =
     Inr [\<lparr>page_content = ''be'', page = 1\<rparr>, \<lparr>page_content = ''alpha'', page = 0::nat\<rparr>] \<and>
   length [\<lparr>page_content = ''be'', page = 1\<rparr>, \<lparr>page_content = ''alpha'', page = 0::nat\<rparr>] =
     min 4 (length (split_documents (pages_to_documents [''alpha'', ''be''])))"
  using retriever_bounds [OF demo_build_chain, of "[3]"] demo_retrieve by auto

theorem retriever_top_k_witness:
  "build_qa_chain demo_services [''alpha'', ''be''] = Inr demo_chain \<and>
   (\<exists>es. [\<lparr>page_content = ''be'', page = 1\<rparr>, \<lparr>page_content = ''alpha'', page = 0::nat\<rparr>] = map fst es \<and>
      sorted (map (\<lambda>e. chroma_distance [3] (snd e)) es))"
  using retriever_top_k [OF demo_build_chain demo_retrieve] demo_build_chain
  by (elim exE conjE) (intro conjI exI; assumption)

lemma demo_answer: "qa_run demo_services demo_chain ''abc'' = Inr ''answer''"
  using demo_retrieve
  by (simp add: qa_run_def demo_services_def)

theorem qa_run_answer_witness:
  "qa_run demo_services demo_chain ''abc'' = Inr ''answer'' \<and>
   (\<exists>qv docs. embed demo_services embedding_model_name ''abc'' = Inr qv \<and>
      chat demo_services gemini_pro (stuff_prompt docs ''abc'') = Inr ''answer'' \<and>
      sublist ''abc'' (stuff_prompt docs ''abc''))"
  using qa_run_answer [OF demo_build_chain demo_answer] demo_answer
  by (elim exE conjE) (intro conjI exI; assumption)

theorem stuff_prompt_bounded_witness:
  "build_qa_chain demo_services [''alpha'', ''be''] = Inr demo_chain \<and>
   length (stuff_prompt [\<lparr>page_content = ''be'', page = 1\<rparr>, \<lparr>page_content = ''alpha'', page = 0\<rparr>] ''abc'')
     \<le> length (prompt_template [] []) + 4 * chunk_size + 6 + length ''abc''"
  using stuff_prompt_bounded [OF demo_build_chain demo_retrieve, of "''abc''"] demo_build_chain by simp

end
