(* ===== verification/Processing.thy ===== *)
theory Processing
  imports QAChain
begin

text \<open>
  Document processing: \<^verbatim>\<open>get_qa_chain_from_pdf(uploaded_file)\<close> (\<^verbatim>\<open>src/app.py\<close>
  lines 24--61) and the \<^verbatim>\<open>@st.cache_resource\<close> memo table around it.
  The process-wide state it touches is the record \<open>world\<close>: the file system as a map
  from paths to contents, the standard output of \<^verbatim>\<open>print\<close>, the resource cache of
  Streamlit, and \<open>loader_calls\<close>, an instrumentation counter of the calls of
  \<^verbatim>\<open>loader.load()\<close> (the call-count stub of the spec's memoisation test).
  The temporary path \<open>tmp\<close> that \<^verbatim>\<open>NamedTemporaryFile\<close> picks and whether the
  write of the upload's bytes fails (an \<^verbatim>\<open>OSError\<close>, e.g. a full disk) are choices of
  the environment and come in as arguments. The function returns the UI elements it
  renders (\<^verbatim>\<open>st.error\<close> in the \<^verbatim>\<open>except\<close> branch) beside its result:
  \<open>Inl\<close> for an exception that escapes it (only the write, which is outside the
  \<^verbatim>\<open>try\<close>), \<open>Inr None\<close> for a caught failure, \<open>Inr (Some chain)\<close> on success.
  Streamlit's cache is library code, modelled from its documented behaviour: it is
  keyed by the hashed argument (an \<^verbatim>\<open>UploadedFile\<close> hashes by its bytes), stores
  every value the function returns, \<open>None\<close> included, together with the elements the
  call rendered, which it replays on a hit; it stores nothing when the function raises.
\<close>

record uploaded_file =
  name :: string
  content :: bytes

datatype ui_event =
    PageConfig string
  | Title string
  | Write string
  | SidebarHeader string
  | FileUploader string
  | Info string
  | Spinner string
  | Success string
  | ErrorBox string
  | TextInput string
  | Exception error

record world =
  fs :: "path \<rightharpoonup> bytes"
  console :: "string list"
  cache :: "bytes \<rightharpoonup> qa_chain option \<times> ui_event list"
  loader_calls :: nat

primrec error_text :: "error \<Rightarrow> string" where
  "error_text LoadError = ''could not read the PDF file''"
| "error_text EmbeddingError = ''embedding request failed''"
| "error_text GenerationError = ''generation request failed''"
| "error_text EmptyIndexError = ''the index holds no documents''"
| "error_text WriteError = ''could not write the temporary file''"
| "error_text AttributeError = ''object has no attribute''"
| "error_text MissingCredentialError = ''GOOGLE_API_KEY not set''"

text \<open>
  The body of the \<^verbatim>\<open>try\<close> block (lines 33--54): the loader reads the temporary file,
  then the chain is built from its pages.
\<close>

definition try_block :: "services \<Rightarrow> path \<Rightarrow> world \<Rightarrow> (error + qa_chain) \<times> world" where
  "try_block svc tmp w =
     (case fs w tmp of
        None \<Rightarrow> (Inl LoadError, w)
      | Some b \<Rightarrow> (sbind (load_pdf svc b) (build_qa_chain svc), w\<lparr>loader_calls := Suc (loader_calls w)\<rparr>))"

definition get_qa_chain_from_pdf ::
  "services \<Rightarrow> uploaded_file \<Rightarrow> path \<Rightarrow> bool \<Rightarrow> world \<Rightarrow>
   (error + qa_chain option) \<times> ui_event list \<times> world" where
  "get_qa_chain_from_pdf svc f tmp write_fails w =
     (let w1 = w\<lparr>console := console w @ [''--- Processing '' @ name f @ '' ---'']\<rparr>;
          w2 = w1\<lparr>fs := (fs w1)(tmp \<mapsto> [])\<rparr>
      in if write_fails then (Inl WriteError, [], w2)
         else
           (let w3 = w2\<lparr>fs := (fs w2)(tmp \<mapsto> content f)\<rparr>;
                (r, w4) = try_block svc tmp w3;
                evs = (case r of Inl e \<Rightarrow> [ErrorBox (''Error processing PDF: '' @ error_text e)] | Inr _ \<Rightarrow> []);
                w5 = (if fs w4 tmp \<noteq> None then w4\<lparr>fs := (fs w4)(tmp := None)\<rparr> else w4)
            in (Inr (case r of Inl _ \<Rightarrow> None | Inr c \<Rightarrow> Some c), evs, w5)))"

text \<open>
  \<^verbatim>\<open>@st.cache_resource\<close>: a hit returns the stored value, replays the stored
  elements and runs nothing; a miss runs the function and stores what it returns and
  rendered, unless it raised.
\<close>

definition cached_get_qa_chain ::
  "services \<Rightarrow> uploaded_file \<Rightarrow> path \<Rightarrow> bool \<Rightarrow> world \<Rightarrow>
   (error + qa_chain option) \<times> ui_event list \<times> world" where
  "cached_get_qa_chain svc f tmp write_fails w =
     (case cache w (content f) of
        Some (r, evs) \<Rightarrow> (Inr r, evs, w)
      | None \<Rightarrow>
          (case get_qa_chain_from_pdf svc f tmp write_fails w of
             (Inl e, evs, w') \<Rightarrow> (Inl e, evs, w')
           | (Inr r, evs, w') \<Rightarrow> (Inr r, evs, w'\<lparr>cache := (cache w')(content f \<mapsto> (r, evs))\<rparr>)))"

text \<open>What processing the bytes \<open>b\<close> yields, with the file system taken out.\<close>

definition pipeline :: "services \<Rightarrow> bytes \<Rightarrow> qa_chain option" where
  "pipeline svc b = (case sbind (load_pdf svc b) (build_qa_chain svc) of Inl _ \<Rightarrow> None | Inr c \<Rightarrow> Some c)"

definition cache_consistent :: "services \<Rightarrow> world \<Rightarrow> bool" where
  "cache_consistent svc w \<longleftrightarrow> (\<forall>b r evs. cache w b = Some (r, evs) \<longrightarrow> r = pipeline svc b)"

definition fake_pdf :: uploaded_file where
  "fake_pdf = \<lparr>name = ''fake.pdf'', content = []\<rparr>"

definition demo_world :: world where
  "demo_world = \<lparr>fs = Map.empty, console = [], cache = Map.empty, loader_calls = 0\<rparr>"

definition demo_pdf :: uploaded_file where
  "demo_pdf = \<lparr>name = ''doc.pdf'', content = [0x25, 0x50, 0x44, 0x46]\<rparr>"

subsection \<open>The processing function\<close>

lemma get_qa_chain_write_fails:
  "get_qa_chain_from_pdf svc f tmp True w =
     (Inl WriteError, [],
      w\<lparr>fs := (fs w)(tmp \<mapsto> []), console := console w @ [''--- Processing '' @ name f @ '' ---'']\<rparr>)"
  by (simp add: get_qa_chain_from_pdf_def)

lemma get_qa_chain_writes:
  "get_qa_chain_from_pdf svc f tmp False w =
     (let r = sbind (load_pdf svc (content f)) (build_qa_chain svc)
      in (Inr (case r of Inl _ \<Rightarrow> None | Inr c \<Rightarrow> Some c),
          (case r of Inl e \<Rightarrow> [ErrorBox (''Error processing PDF: '' @ error_text e)] | Inr _ \<Rightarrow> []),
          w\<lparr>fs := (fs w)(tmp := None), console := console w @ [''--- Processing '' @ name f @ '' ---''],
            loader_calls := Suc (loader_calls w)\<rparr>))"
  by (simp add: get_qa_chain_from_pdf_def try_block_def Let_def split: sum.splits)

lemma pipeline_Some:
  "pipeline svc b = Some c \<longleftrightarrow> (\<exists>pages. load_pdf svc b = Inr pages \<and> build_qa_chain svc pages = Inr c)"
  by (auto simp: pipeline_def sbind_def split: sum.splits)

subsection \<open>The cached call\<close>

lemma cached_hit:
  "cache w (content f) = Some (r, evs) \<Longrightarrow> cached_get_qa_chain svc f tmp fails w = (Inr r, evs, w)"
  by (simp add: cached_get_qa_chain_def)

lemma cached_miss_ok:
  "cache w (content f) = None \<Longrightarrow>
   cached_get_qa_chain svc f tmp False w =
     (case get_qa_chain_from_pdf svc f tmp False w of
        (r, evs, w') \<Rightarrow> (r, evs, w'\<lparr>cache := (cache w')(content f \<mapsto> (pipeline svc (content f), evs))\<rparr>))"
  by (simp add: cached_get_qa_chain_def get_qa_chain_writes pipeline_def Let_def split: sum.splits)

lemma cached_miss_fails:
  "cache w (content f) = None \<Longrightarrow>
   cached_get_qa_chain svc f tmp True w = get_qa_chain_from_pdf svc f tmp True w"
  by (simp add: cached_get_qa_chain_def get_qa_chain_write_fails)

lemma cached_result:
  assumes cc: "cache_consistent svc w" and call: "cached_get_qa_chain svc f tmp fails w = (Inr r, evs, w')"
  shows "r = pipeline svc (content f)"
proof (cases "cache w (content f)")
  case (Some entry)
  then obtain r0 evs0 where e: "cache w (content f) = Some (r0, evs0)" by (cases entry) auto
  with call have "r = r0" by (simp add: cached_hit)
  with e cc show ?thesis by (auto simp: cache_consistent_def)
next
  case None
  show ?thesis
  proof (cases fails)
    case True
    with None call show ?thesis by (simp add: cached_miss_fails get_qa_chain_write_fails)
  next
    case False
    with None call show ?thesis
      by (auto simp: cached_miss_ok get_qa_chain_writes pipeline_def Let_def split: sum.splits)
  qed
qed

lemma cached_cache:
  "cached_get_qa_chain svc f tmp fails w = (r, evs, w') \<Longrightarrow>
   cache w' = cache w \<or> (\<exists>evs'. cache w' = (cache w)(content f \<mapsto> (pipeline svc (content f), evs')))"
  by (cases "cache w (content f)"; cases fails)
     (auto simp: cached_hit cached_miss_fails cached_miss_ok get_qa_chain_write_fails
        get_qa_chain_writes Let_def)

lemma cached_consistent:
  "cache_consistent svc w \<Longrightarrow> cached_get_qa_chain svc f tmp fails w = (r, evs, w') \<Longrightarrow>
   cache_consistent svc w'"
  by (drule cached_cache) (auto simp: cache_consistent_def split: if_splits)

text \<open>
  The call reads and writes the cache only at the upload's bytes; every entry stays.
\<close>

lemma cached_frame:
  "cached_get_qa_chain svc f tmp fails w = (r, evs, w') \<Longrightarrow> k \<noteq> content f \<Longrightarrow> cache w' k = cache w k"
  by (drule cached_cache) auto

lemma cached_local:
  assumes same: "cache w1 (content f) = cache w2 (content f)"
    and c1: "cached_get_qa_chain svc f tmp fails w1 = (r1, evs1, w1')"
    and c2: "cached_get_qa_chain svc f tmp fails w2 = (r2, evs2, w2')"
  shows "r1 = r2 \<and> evs1 = evs2 \<and> cache w1' (content f) = cache w2' (content f)"
proof (cases "cache w1 (content f)")
  case (Some e)
  then obtain r evs where h1: "cache w1 (content f) = Some (r, evs)" by (cases e) auto
  with same have h2: "cache w2 (content f) = Some (r, evs)" by simp
  from c1 c2 h1 h2 show ?thesis by (auto simp: cached_hit [OF h1] cached_hit [OF h2])
next
  case None
  with same c1 c2 show ?thesis
    by (cases fails) (auto simp: cached_miss_fails cached_miss_ok get_qa_chain_write_fails get_qa_chain_writes Let_def)
qed

lemma cached_keeps:
  "cached_get_qa_chain svc f tmp fails w = (r, evs, w') \<Longrightarrow> cache w k = Some v \<Longrightarrow> cache w' k = Some v"
  by (cases "cache w (content f)"; cases fails)
     (auto simp: cached_hit cached_miss_fails cached_miss_ok get_qa_chain_write_fails
        get_qa_chain_writes Let_def)

subsection \<open>Properties of one call\<close>

text \<open>
  C5. The temporary file is removed on every path through the \<^verbatim>\<open>try\<close> block:
  when the write succeeds, the file system after the call is the one before it,
  whether processing succeeded or failed.
\<close>

theorem get_qa_chain_no_temp_leak:
  "fs w tmp = None \<Longrightarrow> get_qa_chain_from_pdf svc f tmp False w = (r, evs, w') \<Longrightarrow> fs w' = fs w"
  by (auto simp: get_qa_chain_writes Let_def)

text \<open>
  C6. A call whose write succeeds runs the loader exactly once and returns
  \<open>Inr\<close> of what the pipeline makes of the uploaded bytes: the chain on success,
  \<open>None\<close> on a caught failure, which then renders exactly one error message
  \<^verbatim>\<open>Error processing PDF: ...\<close>; a success renders nothing.
\<close>

theorem get_qa_chain_result:
  "get_qa_chain_from_pdf svc f tmp False w = (r, evs, w') \<Longrightarrow>
   r = Inr (pipeline svc (content f)) \<and> loader_calls w' = Suc (loader_calls w) \<and>
   (pipeline svc (content f) = None \<longrightarrow> length evs = 1) \<and>
   (pipeline svc (content f) \<noteq> None \<longrightarrow> evs = [])"
  by (auto simp: get_qa_chain_writes pipeline_def Let_def split: sum.splits)

text \<open>
  C9. The write of the upload's bytes sits inside the \<^verbatim>\<open>with\<close> block but before the
  \<^verbatim>\<open>try\<close>, and the file is created with \<^verbatim>\<open>delete=False\<close>: when the write raises,
  the exception leaves the function, the loader never runs, and the temporary file
  stays on disk, although the spec requires its removal on every exit path.
\<close>

theorem write_failure_leaks_temp:
  "fs w tmp = None \<Longrightarrow> get_qa_chain_from_pdf svc f tmp True w = (r, evs, w') \<Longrightarrow>
   r = Inl WriteError \<and> fs w' tmp = Some [] \<and> fs w' \<noteq> fs w \<and> loader_calls w' = loader_calls w"
  by (auto simp: get_qa_chain_write_fails dest: fun_cong [where x = tmp])

subsection \<open>Witnesses\<close>

lemma demo_call:
  "get_qa_chain_from_pdf demo_services demo_pdf 7 False demo_world =
     (Inr (pipeline demo_services (content demo_pdf)), [],
      demo_world\<lparr>console := [''--- Processing doc.pdf ---''], loader_calls := 1\<rparr>)"
  by (simp add: get_qa_chain_writes demo_world_def demo_pdf_def demo_services_def pipeline_def
      build_qa_chain_def from_documents_def split_text_short chunk_size_def pages_to_documents_def
      upt_conv_Cons)

theorem get_qa_chain_no_temp_leak_witness:
  "fs demo_world 7 = None \<and>
   fs (snd (snd (get_qa_chain_from_pdf demo_services demo_pdf 7 False demo_world))) = fs demo_world"
proof -
  have h: "fs demo_world 7 = None" by (simp add: demo_world_def)
  show ?thesis using h get_qa_chain_no_temp_leak [OF h demo_call] demo_call by simp
qed

theorem get_qa_chain_result_witness:
  "fst (get_qa_chain_from_pdf demo_services fake_pdf 7 False demo_world) = Inr None \<and>
   fst (snd (get_qa_chain_from_pdf demo_services fake_pdf 7 False demo_world)) =
     [ErrorBox (''Error processing PDF: '' @ error_text LoadError)] \<and>
   loader_calls (snd (snd (get_qa_chain_from_pdf demo_services fake_pdf 7 False demo_world))) = 1"
proof -
  obtain r evs w' where call: "get_qa_chain_from_pdf demo_services fake_pdf 7 False demo_world = (r, evs, w')"
    by (cases "get_qa_chain_from_pdf demo_services fake_pdf 7 False demo_world") auto
  have none: "pipeline demo_services (content fake_pdf) = None"
    by (simp add: pipeline_def demo_services_def fake_pdf_def)
  have evs: "evs = [ErrorBox (''Error processing PDF: '' @ error_text LoadError)]"
    using call by (simp add: get_qa_chain_writes demo_services_def fake_pdf_def)
  show ?thesis using get_qa_chain_result [OF call] call none evs by (simp add: demo_world_def)
qed

theorem write_failure_leaks_temp_witness:
  "fs demo_world 7 = None \<and>
   fst (get_qa_chain_from_pdf demo_services demo_pdf 7 True demo_world) = Inl WriteError \<and>
   fs (snd (snd (get_qa_chain_from_pdf demo_services demo_pdf 7 True demo_world))) 7 = Some []"
proof -
  have h: "fs demo_world 7 = None" by (simp add: demo_world_def)
  obtain r evs w' where call: "get_qa_chain_from_pdf demo_services demo_pdf 7 True demo_world = (r, evs, w')"
    by (cases "get_qa_chain_from_pdf demo_services demo_pdf 7 True demo_world") auto
  show ?thesis using write_failure_leaks_temp [OF h call] h call by simp
qed

end
