(* ===== verification/Session.thy ===== *)
theory Session
  imports Processing
begin

text \<open>
  The Streamlit script (\<^verbatim>\<open>src/app.py\<close> lines 16--95). Streamlit reruns the whole
  module on every interaction; one rerun is \<open>run_script\<close>, a step on the pair of the
  process state (\<open>world\<close>, shared by all sessions) and the user's
  \<^verbatim>\<open>st.session_state\<close> (\<open>session\<close>), returning the UI elements it renders in order.
  Its input is what the rerun reads from outside: the API key of the environment, the
  widget values (the uploaded file, the question typed so far), and the choices of
  the operating system inside \<^verbatim>\<open>get_qa_chain_from_pdf\<close>.
  A session attribute that was never assigned is \<open>None\<close>; \<^verbatim>\<open>qa_chain\<close> has type
  \<open>qa_chain option option\<close> because the source assigns it the value \<^verbatim>\<open>None\<close> when
  processing fails, which is not the same as leaving it unassigned: line 85 tests
  whether the attribute exists, not its value. An exception that escapes the script
  ends the rerun and is shown as \<open>Exception\<close>. The reachable states are an inductive
  set: a fresh process, any number of reruns, and other sessions filling the
  process-wide cache. The invariant says the cache and the session hold only what the
  pipeline makes of some uploaded bytes, and that the two attributes are set
  together.
\<close>

record session =
  qa_chain :: "qa_chain option option"
  file_name :: "string option"

record script_input =
  api_key :: "string option"
  uploaded :: "uploaded_file option"
  user_question :: string
  tmp_path :: path
  write_fails :: bool

definition init_session :: session where
  "init_session = \<lparr>qa_chain = None, file_name = None\<rparr>"

text \<open>\<^verbatim>\<open>if not os.getenv("GOOGLE_API_KEY")\<close>: an unset and an empty variable both fail.\<close>

definition api_key_missing :: "string option \<Rightarrow> bool" where
  "api_key_missing k \<longleftrightarrow> k = None \<or> k = Some []"

definition missing_key_message :: string where
  "missing_key_message = ''GOOGLE_API_KEY not found in .env file. Please add it and restart.''"

definition speech_balloon :: string where
  "speech_balloon = [CHR 0xF0, CHR 0x9F, CHR 0x92, CHR 0xAC]"

definition page_header :: "ui_event list" where
  "page_header =
     [PageConfig ''AskDoc RAG'', Title (''AskDoc RAG '' @ speech_balloon),
      Write ''Upload a PDF document and ask any question about its content.'',
      SidebarHeader ''Upload Your Document'', FileUploader ''Upload a PDF'']"

definition upload_prompt :: string where
  "upload_prompt = ''Please upload a PDF document in the sidebar to get started.''"

text \<open>
  Line 74: \<^verbatim>\<open>"qa_chain" not in st.session_state or st.session_state.file_name !=
  uploaded_file.name\<close>; the second operand is read only when the first is false and
  raises \<^verbatim>\<open>AttributeError\<close> if \<^verbatim>\<open>file_name\<close> was never assigned.
\<close>

definition needs_processing :: "session \<Rightarrow> uploaded_file \<Rightarrow> error + bool" where
  "needs_processing s f =
     (case qa_chain s of
        None \<Rightarrow> Inr True
      | Some _ \<Rightarrow> (case file_name s of None \<Rightarrow> Inl AttributeError | Some n \<Rightarrow> Inr (n \<noteq> name f)))"

definition processing_message :: "uploaded_file \<Rightarrow> string" where
  "processing_message f = ''Processing '' @ name f @ ''... This may take a moment.''"

text \<open>Lines 75--82: process under a spinner, store the result and the name, report.\<close>

definition process_document ::
  "services \<Rightarrow> script_input \<Rightarrow> uploaded_file \<Rightarrow> world \<Rightarrow> session \<Rightarrow>
   (error + session) \<times> ui_event list \<times> world" where
  "process_document svc inp f w s =
     (case cached_get_qa_chain svc f (tmp_path inp) (write_fails inp) w of
        (Inl e, evs, w') \<Rightarrow> (Inl e, Spinner (processing_message f) # evs, w')
      | (Inr r, evs, w') \<Rightarrow>
          (Inr (s\<lparr>qa_chain := Some r, file_name := Some (name f)\<rparr>),
           Spinner (processing_message f) # evs @
             [if r \<noteq> None then Success ''Document processed! You can now ask questions.''
              else ErrorBox ''Failed to process document. Please try again.''],
           w'))"

text \<open>Lines 85--92: the question box, and the answer when a question was typed.\<close>

definition handle_question :: "services \<Rightarrow> string \<Rightarrow> session \<Rightarrow> ui_event list" where
  "handle_question svc q s =
     (case qa_chain s of
        None \<Rightarrow> []
      | Some chain \<Rightarrow>
          TextInput ''Ask a question about your document:'' #
          (if q = [] then []
           else Spinner ''Searching for the answer...'' #
             (case chain of
                None \<Rightarrow> [Exception AttributeError]
              | Some c \<Rightarrow> (case qa_run svc c q of Inl e \<Rightarrow> [Exception e] | Inr resp \<Rightarrow> [Write resp]))))"

definition run_script ::
  "services \<Rightarrow> script_input \<Rightarrow> world \<times> session \<Rightarrow> (world \<times> session) \<times> ui_event list" where
  "run_script svc inp ws =
     (case ws of (w, s) \<Rightarrow>
       if api_key_missing (api_key inp) then ((w, s), [ErrorBox missing_key_message])
       else
         (case uploaded inp of
            None \<Rightarrow> ((w, s), page_header @ [Info upload_prompt])
          | Some f \<Rightarrow>
              (case needs_processing s f of
                 Inl e \<Rightarrow> ((w, s), page_header @ [Exception e])
               | Inr False \<Rightarrow> ((w, s), page_header @ handle_question svc (user_question inp) s)
               | Inr True \<Rightarrow>
                   (case process_document svc inp f w s of
                      (Inl e, evs, w') \<Rightarrow> ((w', s), page_header @ evs @ [Exception e])
                    | (Inr s', evs, w') \<Rightarrow>
                        ((w', s'), page_header @ evs @ handle_question svc (user_question inp) s')))))"

inductive reachable :: "services \<Rightarrow> world \<times> session \<Rightarrow> bool" for svc where
  start: "cache w = Map.empty \<Longrightarrow> loader_calls w = 0 \<Longrightarrow> reachable svc (w, init_session)"
| rerun: "reachable svc ws \<Longrightarrow> fs (fst ws) (tmp_path inp) = None \<Longrightarrow>
          reachable svc (fst (run_script svc inp ws))"
| other_session: "reachable svc (w, s) \<Longrightarrow> cached_get_qa_chain svc f tmp fails w = (r, evs, w') \<Longrightarrow>
          reachable svc (w', s)"

definition session_inv :: "services \<Rightarrow> world \<times> session \<Rightarrow> bool" where
  "session_inv svc ws \<longleftrightarrow>
     cache_consistent svc (fst ws) \<and>
     (qa_chain (snd ws) = None \<longleftrightarrow> file_name (snd ws) = None) \<and>
     (\<forall>r. qa_chain (snd ws) = Some r \<longrightarrow> (\<exists>b. r = pipeline svc b))"

text \<open>
  The loader is run once per distinct document content that reaches the cache: the
  instrumentation counter equals the number of cached keys.
\<close>

definition loader_inv :: "world \<Rightarrow> bool" where
  "loader_inv w \<longleftrightarrow> finite (dom (cache w)) \<and> loader_calls w = card (dom (cache w))"

text \<open>Example inputs for the witnesses.\<close>

definition question_input :: "uploaded_file \<Rightarrow> script_input" where
  "question_input f = \<lparr>api_key = Some ''key'', uploaded = Some f, user_question = ''What is this?'',
     tmp_path = 7, write_fails = False\<rparr>"

abbreviation demo_after :: "world \<times> session" where
  "demo_after \<equiv> fst (run_script demo_services (question_input demo_pdf) (demo_world, init_session))"

subsection \<open>Facts about the example inputs\<close>

lemma question_input_facts:
  "\<not> api_key_missing (api_key (question_input f))"
  "uploaded (question_input f) = Some f"
  "\<not> write_fails (question_input f)"
  "user_question (question_input f) = ''What is this?''"
  "tmp_path (question_input f) = 7"
  by (simp_all add: api_key_missing_def question_input_def)

lemma demo_world_consistent: "cache_consistent svc demo_world"
  by (simp add: cache_consistent_def demo_world_def)

lemma demo_start_reachable: "reachable svc (demo_world, init_session)"
  by (rule reachable.start) (simp_all add: demo_world_def)

lemma demo_first_run_reachable:
  "reachable svc (fst (run_script svc (question_input f) (demo_world, init_session)))"
  using demo_start_reachable by (rule reachable.rerun) (simp add: demo_world_def question_input_facts)

subsection \<open>One rerun\<close>

lemma run_script_missing_key:
  "api_key_missing (api_key inp) \<Longrightarrow> run_script svc inp (w, s) = ((w, s), [ErrorBox missing_key_message])"
  by (simp add: run_script_def)

lemma run_script_no_upload:
  "\<not> api_key_missing (api_key inp) \<Longrightarrow> uploaded inp = None \<Longrightarrow>
   run_script svc inp (w, s) = ((w, s), page_header @ [Info upload_prompt])"
  by (simp add: run_script_def)

lemma run_script_cached_name:
  "\<not> api_key_missing (api_key inp) \<Longrightarrow> uploaded inp = Some f \<Longrightarrow> needs_processing s f = Inr False \<Longrightarrow>
   run_script svc inp (w, s) = ((w, s), page_header @ handle_question svc (user_question inp) s)"
  by (simp add: run_script_def)

lemma run_script_process:
  "\<not> api_key_missing (api_key inp) \<Longrightarrow> uploaded inp = Some f \<Longrightarrow> needs_processing s f = Inr True \<Longrightarrow>
   process_document svc inp f w s = (res, evs, w') \<Longrightarrow>
   run_script svc inp (w, s) =
     (case res of
        Inl e \<Rightarrow> ((w', s), page_header @ evs @ [Exception e])
      | Inr s' \<Rightarrow> ((w', s'), page_header @ evs @ handle_question svc (user_question inp) s'))"
  by (simp add: run_script_def split: sum.splits)

lemma process_document_result:
  assumes "cache_consistent svc w" and "process_document svc inp f w s = (res, evs, w')"
  shows "cache_consistent svc w' \<and>
         (\<forall>s'. res = Inr s' \<longrightarrow>
            s' = s\<lparr>qa_chain := Some (pipeline svc (content f)), file_name := Some (name f)\<rparr>)"
proof -
  obtain r evs0 where c: "cached_get_qa_chain svc f (tmp_path inp) (write_fails inp) w = (r, evs0, w')"
    using assms(2) by (auto simp: process_document_def split: prod.splits sum.splits)
  have "cache_consistent svc w'" using cached_consistent [OF assms(1) c] .
  moreover have "res = Inr s' \<Longrightarrow>
      s' = s\<lparr>qa_chain := Some (pipeline svc (content f)), file_name := Some (name f)\<rparr>" for s'
    using assms(2) c cached_result [OF assms(1)] by (auto simp: process_document_def split: sum.splits)
  ultimately show ?thesis by blast
qed

lemma needs_processing_inv:
  "(qa_chain s = None \<longleftrightarrow> file_name s = None) \<Longrightarrow>
   needs_processing s f = Inr (file_name s \<noteq> Some (name f))"
  by (auto simp: needs_processing_def split: option.splits)

lemma run_script_inv:
  assumes inv: "session_inv svc ws"
  shows "session_inv svc (fst (run_script svc inp ws))"
proof (cases ws)
  case (Pair w s)
  from inv Pair have cc: "cache_consistent svc w" and
    np: "\<And>f. needs_processing s f = Inr (file_name s \<noteq> Some (name f))"
    by (auto simp: session_inv_def needs_processing_inv)
  show ?thesis
  proof (cases "\<not> api_key_missing (api_key inp) \<and> uploaded inp \<noteq> None")
    case False
    with inv Pair show ?thesis
      by (cases "api_key_missing (api_key inp)") (auto simp: run_script_missing_key run_script_no_upload)
  next
    case True
    then obtain f where up: "uploaded inp = Some f" and key: "\<not> api_key_missing (api_key inp)" by auto
    show ?thesis
    proof (cases "file_name s = Some (name f)")
      case True
      with inv Pair key up np show ?thesis by (simp add: run_script_cached_name)
    next
      case False
      obtain res evs w' where pd: "process_document svc inp f w s = (res, evs, w')"
        by (cases "process_document svc inp f w s") auto
      from process_document_result [OF cc pd] have cc': "cache_consistent svc w'"
        and s': "\<And>s'. res = Inr s' \<Longrightarrow>
           s' = s\<lparr>qa_chain := Some (pipeline svc (content f)), file_name := Some (name f)\<rparr>"
        by auto
      show ?thesis
        using run_script_process [OF key up _ pd] np [of f] False inv Pair cc' s'
        by (cases res) (auto simp: session_inv_def)
    qed
  qed
qed

lemma reachable_inv: "reachable svc ws \<Longrightarrow> session_inv svc ws"
proof (induction rule: reachable.induct)
  case (start w)
  then show ?case by (simp add: session_inv_def cache_consistent_def init_session_def)
next
  case (rerun ws inp)
  from rerun.IH show ?case by (rule run_script_inv)
next
  case (other_session w s f tmp fails r evs w')
  then show ?case using cached_consistent by (auto simp: session_inv_def)
qed

lemma cached_loader_inv:
  assumes inv: "loader_inv w" and call: "cached_get_qa_chain svc f tmp fails w = (r, evs, w')"
  shows "loader_inv w'"
proof (cases "cache w (content f)")
  case (Some entry)
  then obtain r0 evs0 where "cache w (content f) = Some (r0, evs0)" by (cases entry) auto
  with call inv show ?thesis by (simp add: cached_hit)
next
  case None
  show ?thesis
  proof (cases fails)
    case True
    with None call inv show ?thesis
      by (auto simp: cached_miss_fails get_qa_chain_write_fails loader_inv_def)
  next
    case False
    with None call inv show ?thesis
      by (auto simp: cached_miss_ok get_qa_chain_writes loader_inv_def Let_def card_insert_if domIff)
  qed
qed

lemma run_script_world:
  "fst (fst (run_script svc inp (w, s))) = w \<or>
   (\<exists>f r evs. uploaded inp = Some f \<and>
      cached_get_qa_chain svc f (tmp_path inp) (write_fails inp) w = (r, evs, fst (fst (run_script svc inp (w, s)))))"
  by (auto simp: run_script_def process_document_def split: option.splits sum.splits bool.splits prod.splits)

lemma run_script_frame:
  assumes "\<forall>f. uploaded inp = Some f \<longrightarrow> content f \<noteq> k"
  shows "cache (fst (fst (run_script svc inp (w, s)))) k = cache w k"
  using run_script_world [of svc inp w s] cached_frame assms by metis

lemma run_script_keeps:
  "cache w k = Some v \<Longrightarrow> cache (fst (fst (run_script svc inp (w, s)))) k = Some v"
  using run_script_world [of svc inp w s] cached_keeps by metis


lemma reachable_loader_inv: "reachable svc ws \<Longrightarrow> loader_inv (fst ws)"
proof (induction rule: reachable.induct)
  case (start w)
  then show ?case by (simp add: loader_inv_def)
next
  case (rerun ws inp)
  obtain w s where ws: "ws = (w, s)" by (cases ws)
  with rerun.IH show ?case
    using run_script_world [of svc inp w s] cached_loader_inv by (auto simp: ws)
next
  case (other_session w s f tmp fails r evs w')
  then show ?case using cached_loader_inv by simp
qed

lemma run_script_local:
  assumes r1: "run_script svc inp (w1, s) = ((w1', s1), evs1)"
    and r2: "run_script svc inp (w2, s) = ((w2', s2), evs2)"
    and same: "\<forall>f. uploaded inp = Some f \<longrightarrow> cache w1 (content f) = cache w2 (content f)"
  shows "s1 = s2 \<and> evs1 = evs2 \<and> (\<forall>f. uploaded inp = Some f \<longrightarrow> cache w1' (content f) = cache w2' (content f))"
proof (cases "\<not> api_key_missing (api_key inp) \<and> uploaded inp \<noteq> None")
  case False
  with r1 r2 same show ?thesis
    by (cases "api_key_missing (api_key inp)") (auto simp: run_script_missing_key run_script_no_upload)
next
  case True
  then obtain f where key: "\<not> api_key_missing (api_key inp)" and up: "uploaded inp = Some f" by auto
  obtain ra evsa wa where ca: "cached_get_qa_chain svc f (tmp_path inp) (write_fails inp) w1 = (ra, evsa, wa)"
    by (metis prod.exhaust)
  obtain rb evsb wb where cb: "cached_get_qa_chain svc f (tmp_path inp) (write_fails inp) w2 = (rb, evsb, wb)"
    by (metis prod.exhaust)
  from cached_local [OF _ ca cb] same up
  have eq: "ra = rb" "evsa = evsb" "cache wa (content f) = cache wb (content f)" by auto
  show ?thesis
  proof (cases "needs_processing s f")
    case (Inl e)
    with r1 r2 key up same show ?thesis by (simp add: run_script_def)
  next
    case (Inr b)
    show ?thesis
    proof (cases b)
      case False
      with Inr have "needs_processing s f = Inr False" by simp
      from run_script_cached_name [OF key up this, of svc w1] run_script_cached_name [OF key up this, of svc w2]
      show ?thesis using r1 r2 up same by simp
    next
      case True
      with Inr r1 r2 key up ca cb eq show ?thesis
        by (auto simp: run_script_def process_document_def split: sum.splits)
    qed
  qed
qed

lemma run_script_hit:
  assumes key: "\<not> api_key_missing (api_key inp)" and up: "uploaded inp = Some f"
    and np: "needs_processing s f = Inr True" and hit: "cache w (content f) = Some (r, evs)"
  shows "snd (fst (run_script svc inp (w, s))) = s\<lparr>qa_chain := Some r, file_name := Some (name f)\<rparr>"
proof -
  have "process_document svc inp f w s =
      (Inr (s\<lparr>qa_chain := Some r, file_name := Some (name f)\<rparr>),
       Spinner (processing_message f) # evs @
         [if r \<noteq> None then Success ''Document processed! You can now ask questions.''
          else ErrorBox ''Failed to process document. Please try again.''], w)"
    by (simp add: process_document_def cached_hit [OF hit])
  from run_script_process [OF key up np this] show ?thesis by simp
qed

lemma run_script_miss:
  assumes key: "\<not> api_key_missing (api_key inp)" and up: "uploaded inp = Some f" and nw: "\<not> write_fails inp"
    and np: "needs_processing s f = Inr True" and miss: "cache w (content f) = None"
  shows "\<exists>evs. cache (fst (fst (run_script svc inp (w, s)))) (content f) = Some (pipeline svc (content f), evs) \<and>
           snd (fst (run_script svc inp (w, s))) =
             s\<lparr>qa_chain := Some (pipeline svc (content f)), file_name := Some (name f)\<rparr>"
proof -
  obtain r evs w' where c: "cached_get_qa_chain svc f (tmp_path inp) False w = (r, evs, w')"
    by (metis prod.exhaust)
  have r: "r = Inr (pipeline svc (content f))" and stored: "cache w' (content f) = Some (pipeline svc (content f), evs)"
    using c miss by (auto simp: cached_miss_ok get_qa_chain_writes pipeline_def Let_def split: sum.splits)
  have "run_script svc inp (w, s) =
      ((w', s\<lparr>qa_chain := Some (pipeline svc (content f)), file_name := Some (name f)\<rparr>),
       page_header @ Spinner (processing_message f) # evs @
         [if pipeline svc (content f) \<noteq> None then Success ''Document processed! You can now ask questions.''
          else ErrorBox ''Failed to process document. Please try again.''] @
         handle_question svc (user_question inp)
           (s\<lparr>qa_chain := Some (pipeline svc (content f)), file_name := Some (name f)\<rparr>))"
    using c r key up np nw by (simp add: run_script_def process_document_def)
  with stored show ?thesis by simp
qed

lemma cached_get_no_raise:
  "\<exists>r evs w'. cached_get_qa_chain svc f tmp False w = (Inr r, evs, w')"
  by (cases "cache w (content f)") (auto simp: cached_hit cached_miss_ok get_qa_chain_writes Let_def)

lemma process_document_no_raise:
  "\<not> write_fails inp \<Longrightarrow> \<exists>s' evs w'. process_document svc inp f w s = (Inr s', evs, w')"
  using cached_get_no_raise [of svc f "tmp_path inp" w]
  by (auto simp: process_document_def)

lemma run_script_new_name:
  assumes inv: "session_inv svc (w, s)" and key: "\<not> api_key_missing (api_key inp)"
    and up: "uploaded inp = Some f" and nw: "\<not> write_fails inp"
    and other: "file_name s \<noteq> Some (name f)"
  shows "snd (fst (run_script svc inp (w, s))) =
           s\<lparr>qa_chain := Some (pipeline svc (content f)), file_name := Some (name f)\<rparr>"
proof -
  from inv have cc: "cache_consistent svc w"
    and np: "needs_processing s f = Inr True"
    using other by (auto simp: session_inv_def needs_processing_inv)
  obtain s1 evs1 w1 where pd: "process_document svc inp f w s = (Inr s1, evs1, w1)"
    using process_document_no_raise [OF nw] by blast
  from process_document_result [OF cc pd] run_script_process [OF key up np pd]
  show ?thesis by simp
qed

lemma handle_question_failed:
  "qa_chain s = Some None \<Longrightarrow> q \<noteq> [] \<Longrightarrow>
   handle_question svc q s =
     [TextInput ''Ask a question about your document:'', Spinner ''Searching for the answer...'',
      Exception AttributeError]"
  by (simp add: handle_question_def)

text \<open>
  C1. When processing an upload fails (the loader, the splitter or the embedder
  raised and the \<^verbatim>\<open>except\<close> branch returned \<^verbatim>\<open>None\<close>), the same rerun stores
  \<^verbatim>\<open>None\<close> in \<^verbatim>\<open>st.session_state.qa_chain\<close>; since line 85 tests only that the
  attribute exists, the question box is shown and a typed question calls
  \<^verbatim>\<open>None.run(...)\<close>, which raises \<^verbatim>\<open>AttributeError\<close>. Every later rerun with a file of
  the same name skips processing and raises the same error: the failure is never
  retried, against the spec's "the UI must not attempt retrieval".
\<close>

theorem failed_processing_question_raises:
  assumes key: "\<not> api_key_missing (api_key inp)" and up: "uploaded inp = Some f"
    and q: "user_question inp \<noteq> []" and nw: "\<not> write_fails inp"
    and cc: "cache_consistent svc w" and fail: "pipeline svc (content f) = None"
    and run: "run_script svc inp (w, init_session) = ((w', s'), evs)"
  shows "qa_chain s' = Some None \<and> file_name s' = Some (name f) \<and>
         last evs = Exception AttributeError \<and>
         (\<forall>inp' f'. \<not> api_key_missing (api_key inp') \<longrightarrow> uploaded inp' = Some f' \<longrightarrow>
            name f' = name f \<longrightarrow> user_question inp' \<noteq> [] \<longrightarrow>
            run_script svc inp' (w', s') =
              ((w', s'), page_header @ [TextInput ''Ask a question about your document:'',
                 Spinner ''Searching for the answer...'', Exception AttributeError]))"
proof -
  obtain s1 evs1 w1 where pd: "process_document svc inp f w init_session = (Inr s1, evs1, w1)"
    using process_document_no_raise [OF nw] by blast
  have s1: "s1 = init_session\<lparr>qa_chain := Some None, file_name := Some (name f)\<rparr>"
    using process_document_result [OF cc pd] fail by simp
  have np: "needs_processing init_session f = Inr True"
    by (simp add: needs_processing_def init_session_def)
  from run_script_process [OF key up np pd] run s1 q
  have st: "w' = w1" "s' = s1" and ev: "last evs = Exception AttributeError"
    by (auto simp: handle_question_failed)
  have later: "run_script svc inp' (w', s') =
      ((w', s'), page_header @ [TextInput ''Ask a question about your document:'',
         Spinner ''Searching for the answer...'', Exception AttributeError])"
    if "\<not> api_key_missing (api_key inp')" "uploaded inp' = Some f'" "name f' = name f"
       "user_question inp' \<noteq> []" for inp' f'
  proof -
    have "needs_processing s' f' = Inr False"
      using that st s1 by (simp add: needs_processing_def)
    with that st s1 show ?thesis by (simp add: run_script_cached_name handle_question_failed)
  qed
  show ?thesis using st s1 ev later by simp
qed

theorem failed_processing_question_raises_witness:
  "last (snd (run_script demo_services (question_input fake_pdf) (demo_world, init_session))) =
     Exception AttributeError \<and>
   qa_chain (snd (fst (run_script demo_services (question_input fake_pdf) (demo_world, init_session)))) =
     Some None"
proof -
  obtain w' s' evs where run:
      "run_script demo_services (question_input fake_pdf) (demo_world, init_session) = ((w', s'), evs)"
    by (metis prod.exhaust)
  have key: "\<not> api_key_missing (api_key (question_input fake_pdf))"
    by (rule question_input_facts)
  have cc: "cache_consistent demo_services demo_world"
    by (rule demo_world_consistent)
  have fail: "pipeline demo_services (content fake_pdf) = None"
    by (simp add: pipeline_def demo_services_def fake_pdf_def)
  from failed_processing_question_raises [OF key _ _ _ cc fail run]
  show ?thesis using run by (simp add: question_input_def)
qed

text \<open>
  C2. In every reachable state the session's two attributes are assigned together,
  every pipeline the session holds (\<^verbatim>\<open>None\<close> included) is what the full pipeline
  makes of some uploaded bytes (no partially built index is ever activated), and every
  entry of the process-wide cache is what the pipeline makes of its key.
\<close>

theorem reachable_session_consistent:
  assumes "reachable svc (w, s)"
  shows "(qa_chain s = None \<longleftrightarrow> file_name s = None) \<and>
         (\<forall>r. qa_chain s = Some r \<longrightarrow> (\<exists>b. r = pipeline svc b)) \<and>
         (\<forall>b r evs. cache w b = Some (r, evs) \<longrightarrow> r = pipeline svc b)"
  using reachable_inv [OF assms] by (simp add: session_inv_def cache_consistent_def)

text \<open>
  C3. Memoisation by name: while a pipeline is stored under the name of the uploaded
  file, a rerun neither loads, splits nor embeds anything (the process state, the
  loader count and the session are unchanged), whatever the file's bytes are: a
  different file with the same name is answered from the old index.
\<close>

theorem same_name_no_reprocessing:
  "\<not> api_key_missing (api_key inp) \<Longrightarrow> uploaded inp = Some f \<Longrightarrow>
   qa_chain s \<noteq> None \<Longrightarrow> file_name s = Some (name f) \<Longrightarrow>
   run_script svc inp (w, s) = ((w, s), page_header @ handle_question svc (user_question inp) s)"
  by (auto simp: run_script_cached_name needs_processing_def)

text \<open>
  C4. Uploading a file under a name other than the stored one (or the first upload)
  replaces the session's pipeline by what the pipeline makes of the new file's bytes
  and records the new name; the old index is no longer reachable from the session.
\<close>

theorem new_name_replaces_chain:
  assumes reach: "reachable svc (w, s)" and key: "\<not> api_key_missing (api_key inp)"
    and up: "uploaded inp = Some f" and nw: "\<not> write_fails inp"
    and other: "file_name s \<noteq> Some (name f)"
    and run: "run_script svc inp (w, s) = ((w', s'), evs)"
  shows "qa_chain s' = Some (pipeline svc (content f)) \<and> file_name s' = Some (name f)"
  using run_script_new_name [OF reachable_inv [OF reach] key up nw other] run by simp


text \<open>
  C8. Without an API key (unset or empty) a rerun renders exactly one error message and
  nothing else, and changes no state.
\<close>

theorem missing_credential_halts:
  "api_key_missing (api_key inp) \<Longrightarrow> run_script svc inp ws = (ws, [ErrorBox missing_key_message])"
  by (cases ws) (simp add: run_script_missing_key)


text \<open>
  C21. A question whose answering raises (an embedding or generation failure, or an
  empty index) ends the rerun with the exception shown, and changes neither the
  process state nor the session: the built index is kept, and the next rerun asks
  the same chain again.
\<close>

theorem question_failure_keeps_index:
  "\<not> api_key_missing (api_key inp) \<Longrightarrow> uploaded inp = Some f \<Longrightarrow>
   qa_chain s = Some (Some c) \<Longrightarrow> file_name s = Some (name f) \<Longrightarrow>
   user_question inp \<noteq> [] \<Longrightarrow> qa_run svc c (user_question inp) = Inl e \<Longrightarrow>
   run_script svc inp (w, s) =
     ((w, s), page_header @ [TextInput ''Ask a question about your document:'',
        Spinner ''Searching for the answer...'', Exception e])"
  by (simp add: run_script_cached_name needs_processing_def handle_question_def)

text \<open>
  C28. Type preservation: when the embedding service returns vectors of one
  dimension, every chain in a reachable state, the session's and every chain in the
  process-wide cache, is well typed: vectors of that dimension, non-empty chunks of
  at most \<open>chunk_size\<close> characters, and the source's configuration.
\<close>

theorem reachable_chains_well_typed:
  assumes "reachable svc (w, s)" and "embeds_dim svc n"
  shows "(\<forall>c. qa_chain s = Some (Some c) \<longrightarrow> chain_wf n c) \<and>
         (\<forall>b c evs. cache w b = Some (Some c, evs) \<longrightarrow> chain_wf n c)"
proof -
  have wf: "chain_wf n c" if "pipeline svc b = Some c" for b c
    using that build_qa_chain_wf [OF assms(2)] by (auto simp: pipeline_Some)
  from reachable_inv [OF assms(1)]
  have ses: "\<And>r. qa_chain s = Some r \<Longrightarrow> \<exists>b. r = pipeline svc b"
    and cc: "\<And>b r evs. cache w b = Some (r, evs) \<Longrightarrow> r = pipeline svc b"
    by (auto simp: session_inv_def cache_consistent_def)
  have "chain_wf n c" if "qa_chain s = Some (Some c)" for c
    using ses [OF that] wf by metis
  moreover have "chain_wf n c" if "cache w b = Some (Some c, evs)" for b c evs
    using cc [OF that] wf by metis
  ultimately show ?thesis by blast
qed

subsection \<open>Witnesses\<close>

lemma demo_build:
  "sbind (load_pdf demo_services (content demo_pdf)) (build_qa_chain demo_services) =
     Inr \<lparr>vectorstore = [(\<lparr>page_content = ''page one'', page = 0\<rparr>, [8])],
           embedding_model = embedding_model_name, retriever_k = search_k, llm = gemini_pro,
           chain_type = ''stuff''\<rparr>"
  by (simp add: demo_services_def demo_pdf_def build_qa_chain_def from_documents_def
      split_text_short chunk_size_def pages_to_documents_def upt_conv_Cons)

lemma demo_pipeline:
  "pipeline demo_services (content demo_pdf) =
     Some \<lparr>vectorstore = [(\<lparr>page_content = ''page one'', page = 0\<rparr>, [8])],
           embedding_model = embedding_model_name, retriever_k = search_k, llm = gemini_pro,
           chain_type = ''stuff''\<rparr>"
  by (simp add: pipeline_def demo_build)

lemma demo_run:
  "run_script demo_services (question_input demo_pdf) (demo_world, init_session) =
     ((demo_world\<lparr>console := [''--- Processing doc.pdf ---''],
                   cache := [content demo_pdf \<mapsto> (pipeline demo_services (content demo_pdf), [])],
                   loader_calls := 1\<rparr>,
       \<lparr>qa_chain = Some (pipeline demo_services (content demo_pdf)), file_name = Some ''doc.pdf''\<rparr>),
      page_header @ [Spinner (processing_message demo_pdf), Success ''Document processed! You can now ask questions.''] @
      handle_question demo_services ''What is this?''
        \<lparr>qa_chain = Some (pipeline demo_services (content demo_pdf)), file_name = Some ''doc.pdf''\<rparr>)"
proof -
  have np: "needs_processing init_session demo_pdf = Inr True"
    by (simp add: needs_processing_def init_session_def)
  have key: "\<not> api_key_missing (api_key (question_input demo_pdf))"
    by (rule question_input_facts)
  have pd: "process_document demo_services (question_input demo_pdf) demo_pdf demo_world init_session =
     (Inr \<lparr>qa_chain = Some (pipeline demo_services (content demo_pdf)), file_name = Some ''doc.pdf''\<rparr>,
      [Spinner (processing_message demo_pdf), Success ''Document processed! You can now ask questions.''],
      demo_world\<lparr>console := [''--- Processing doc.pdf ---''],
                   cache := [content demo_pdf \<mapsto> (pipeline demo_services (content demo_pdf), [])],
                   loader_calls := 1\<rparr>)"
    using demo_build
    by (simp add: process_document_def cached_miss_ok get_qa_chain_writes question_input_def
        demo_world_def init_session_def pipeline_def Let_def) (simp add: demo_pdf_def)
  show ?thesis using run_script_process [OF key _ np pd]
    by (simp add: question_input_def demo_pdf_def)
qed

lemma demo_after_session:
  "snd demo_after =
     \<lparr>qa_chain = Some (pipeline demo_services (content demo_pdf)), file_name = Some ''doc.pdf''\<rparr>"
  by (simp add: demo_run)

lemma demo_after_loader_calls: "loader_calls (fst demo_after) = 1"
  by (simp add: demo_run)

lemma demo_after_reachable: "reachable demo_services demo_after"
  by (rule demo_first_run_reachable)

theorem reachable_session_consistent_witness:
  "reachable demo_services demo_after \<and> qa_chain (snd demo_after) \<noteq> None \<and>
   (\<exists>b. the (qa_chain (snd demo_after)) = pipeline demo_services b)"
proof -
  obtain w s where ws: "demo_after = (w, s)" by (metis prod.exhaust)
  have r: "reachable demo_services (w, s)" using demo_after_reachable ws by simp
  have some: "qa_chain s = Some (pipeline demo_services (content demo_pdf))"
    using ws demo_after_session by simp
  show ?thesis using reachable_session_consistent [OF r] r ws some by auto
qed

theorem same_name_no_reprocessing_witness:
  "run_script demo_services (question_input demo_pdf) demo_after =
     (demo_after, page_header @ handle_question demo_services ''What is this?'' (snd demo_after)) \<and>
   loader_calls (fst demo_after) = 1"
proof -
  obtain w s where ws: "demo_after = (w, s)" by (metis prod.exhaust)
  have key: "\<not> api_key_missing (api_key (question_input demo_pdf))"
    and up: "uploaded (question_input demo_pdf) = Some demo_pdf"
    by (simp_all add: question_input_facts)
  have ne: "qa_chain s \<noteq> None" and nm: "file_name s = Some (name demo_pdf)"
    using ws demo_after_session by (simp_all add: demo_pdf_def)
  have "run_script demo_services (question_input demo_pdf) (w, s) =
      ((w, s), page_header @ handle_question demo_services ''What is this?'' s)"
    using same_name_no_reprocessing [OF key up ne nm, of demo_services w]
    by (simp add: question_input_def)
  then show ?thesis using ws demo_after_loader_calls by simp
qed

theorem new_name_replaces_chain_witness:
  "qa_chain (snd demo_after) = Some (pipeline demo_services (content demo_pdf)) \<and>
   file_name (snd demo_after) = Some ''doc.pdf''"
proof -
  obtain w' s' evs where run:
      "run_script demo_services (question_input demo_pdf) (demo_world, init_session) = ((w', s'), evs)"
    by (metis prod.exhaust)
  have reach: "reachable demo_services (demo_world, init_session)"
    by (rule demo_start_reachable)
  have key: "\<not> api_key_missing (api_key (question_input demo_pdf))"
    and up: "uploaded (question_input demo_pdf) = Some demo_pdf"
    and nw: "\<not> write_fails (question_input demo_pdf)"
    and other: "file_name init_session \<noteq> Some (name demo_pdf)"
    by (simp_all add: question_input_facts init_session_def)
  from new_name_replaces_chain [OF reach key up nw other run] run
  show ?thesis by (simp add: demo_pdf_def)
qed



theorem question_failure_keeps_index_witness:
  "run_script (demo_services\<lparr>embed := (\<lambda>m t. Inl EmbeddingError)\<rparr>) (question_input demo_pdf) demo_after =
     (demo_after, page_header @ [TextInput ''Ask a question about your document:'',
        Spinner ''Searching for the answer...'', Exception EmbeddingError])"
proof -
  obtain w s where ws: "demo_after = (w, s)" by (metis prod.exhaust)
  have key: "\<not> api_key_missing (api_key (question_input demo_pdf))"
    and up: "uploaded (question_input demo_pdf) = Some demo_pdf"
    and q: "user_question (question_input demo_pdf) \<noteq> []"
    by (simp_all add: question_input_facts)
  have ch: "qa_chain s = Some (Some (the (pipeline demo_services (content demo_pdf))))"
    using ws demo_after_session demo_pipeline by simp
  have nm: "file_name s = Some (name demo_pdf)"
    using ws demo_after_session by (simp add: demo_pdf_def)
  have fail: "qa_run (demo_services\<lparr>embed := (\<lambda>m t. Inl EmbeddingError)\<rparr>)
      (the (pipeline demo_services (content demo_pdf))) (user_question (question_input demo_pdf)) =
      Inl EmbeddingError"
    by (simp add: qa_run_def)
  show ?thesis using question_failure_keeps_index [OF key up ch nm q fail] ws by simp
qed

theorem missing_credential_halts_witness:
  "run_script demo_services ((question_input demo_pdf)\<lparr>api_key := Some []\<rparr>) (demo_world, init_session) =
     ((demo_world, init_session), [ErrorBox missing_key_message])"
proof -
  have "api_key_missing (api_key ((question_input demo_pdf)\<lparr>api_key := Some []\<rparr>))"
    by (simp add: api_key_missing_def)
  then show ?thesis by (rule missing_credential_halts)
qed

lemma demo_embeds_dim: "embeds_dim demo_services 1"
  by (simp add: embeds_dim_def demo_services_def)

theorem reachable_chains_well_typed_witness:
  "qa_chain (snd demo_after) = Some (Some (the (pipeline demo_services (content demo_pdf)))) \<and>
   chain_wf 1 (the (pipeline demo_services (content demo_pdf)))"
proof -
  obtain w s where ws: "demo_after = (w, s)" by (metis prod.exhaust)
  have r: "reachable demo_services (w, s)" using demo_after_reachable ws by simp
  have q: "qa_chain s = Some (Some (the (pipeline demo_services (content demo_pdf))))"
    using ws demo_after_session by (simp add: demo_pipeline)
  show ?thesis using reachable_chains_well_typed [OF r demo_embeds_dim] q ws by simp
qed

end
