(* ===== verification/Lifecycle.thy ===== *)
theory Lifecycle
  imports Session
begin

text \<open>
  The orchestrator of the spec (section 4.6) as an abstract machine, and the script's
  reruns as a refinement of it. The spec's \<open>Processing\<close> and \<open>Answering\<close> states
  last only inside one rerun of \<^verbatim>\<open>src/app.py\<close>, so between reruns the orchestrator
  is \<open>Idle\<close> (no usable pipeline) or \<open>Ready n\<close> (a pipeline built from the document
  named \<open>n\<close>, the key of the memoisation of spec section 5). A rerun is labelled by
  the upload the orchestrator sees (none when the script halts at the credential check
  before rendering the uploader); questions do not change the phase. \<open>phase_of\<close>
  abstracts a session, \<open>lifecycle_step\<close> is the spec's transition relation, and
  \<open>run_trace\<close> runs a sequence of reruns in order, as Streamlit does for the
  interactions of one session.
\<close>

datatype phase = Idle | Ready string

definition phase_of :: "session \<Rightarrow> phase" where
  "phase_of s =
     (case (qa_chain s, file_name s) of
        (Some (Some c), Some n) \<Rightarrow> Ready n
      | _ \<Rightarrow> Idle)"

definition upload_event :: "script_input \<Rightarrow> uploaded_file option" where
  "upload_event inp = (if api_key_missing (api_key inp) then None else uploaded inp)"

inductive lifecycle_step :: "services \<Rightarrow> phase \<Rightarrow> uploaded_file option \<Rightarrow> phase \<Rightarrow> bool"
  for svc where
  no_upload: "lifecycle_step svc p None p"
| same_name: "name f = n \<Longrightarrow> lifecycle_step svc (Ready n) (Some f) (Ready n)"
| processed: "p \<noteq> Ready (name f) \<Longrightarrow> pipeline svc (content f) \<noteq> None \<Longrightarrow>
              lifecycle_step svc p (Some f) (Ready (name f))"
| failed: "p \<noteq> Ready (name f) \<Longrightarrow> pipeline svc (content f) = None \<Longrightarrow>
              lifecycle_step svc p (Some f) Idle"

inductive_simps lifecycle_step_Some_iff: "lifecycle_step svc p (Some f) p'"

inductive lifecycle_steps :: "services \<Rightarrow> phase \<Rightarrow> uploaded_file option list \<Rightarrow> phase \<Rightarrow> bool"
  for svc where
  Nil: "lifecycle_steps svc p [] p"
| Cons: "lifecycle_step svc p u p1 \<Longrightarrow> lifecycle_steps svc p1 us p' \<Longrightarrow>
         lifecycle_steps svc p (u # us) p'"

fun run_trace ::
  "services \<Rightarrow> script_input list \<Rightarrow> world \<times> session \<Rightarrow> (world \<times> session) \<times> ui_event list" where
  "run_trace svc [] ws = (ws, [])"
| "run_trace svc (inp # inps) ws =
     (case run_script svc inp ws of
        (ws1, evs1) \<Rightarrow> (case run_trace svc inps ws1 of (ws2, evs2) \<Rightarrow> (ws2, evs1 @ evs2)))"

text \<open>
  The reruns the refinement covers: the write of the temporary file succeeds, and the
  session is not holding the \<^verbatim>\<open>None\<close> of a failed processing under the name of an
  upload that would now succeed.
\<close>

definition rerun_ok :: "services \<Rightarrow> script_input \<Rightarrow> session \<Rightarrow> bool" where
  "rerun_ok svc inp s \<longleftrightarrow>
     \<not> write_fails inp \<and>
     (case upload_event inp of
        None \<Rightarrow> True
      | Some f \<Rightarrow> qa_chain s = Some None \<and> file_name s = Some (name f) \<longrightarrow> pipeline svc (content f) = None)"

fun trace_ok :: "services \<Rightarrow> script_input list \<Rightarrow> world \<times> session \<Rightarrow> bool" where
  "trace_ok svc [] ws = True"
| "trace_ok svc (inp # inps) ws \<longleftrightarrow>
     rerun_ok svc inp (snd ws) \<and> trace_ok svc inps (fst (run_script svc inp ws))"

text \<open>
  A rerun in which the user only presents a file (no question typed), and the same
  file under another name, the way a user re-uploads a document.
\<close>

definition upload_input :: "uploaded_file \<Rightarrow> script_input" where
  "upload_input f = \<lparr>api_key = Some ''key'', uploaded = Some f, user_question = [],
     tmp_path = 0, write_fails = False\<rparr>"

definition renamed :: "uploaded_file \<Rightarrow> uploaded_file" where
  "renamed f = f\<lparr>name := CHR ''_'' # name f\<rparr>"

definition stuck_file :: uploaded_file where
  "stuck_file = \<lparr>name = ''doc.pdf'', content = []\<rparr>"

definition other_pdf :: uploaded_file where
  "other_pdf = \<lparr>name = ''other.pdf'', content = [0x25, 0x50]\<rparr>"

definition failing_write_input :: script_input where
  "failing_write_input = (question_input other_pdf)\<lparr>write_fails := True\<rparr>"

abbreviation stuck_after :: "world \<times> session" where
  "stuck_after \<equiv> fst (run_script demo_services (question_input stuck_file) (demo_world, init_session))"

subsection \<open>Abstraction\<close>

lemma phase_of_Ready:
  "phase_of s = Ready n \<longleftrightarrow> (\<exists>c. qa_chain s = Some (Some c)) \<and> file_name s = Some n"
  by (auto simp: phase_of_def split: option.splits)

lemma phase_of_processed:
  "phase_of (s\<lparr>qa_chain := Some r, file_name := Some n\<rparr>) = (case r of None \<Rightarrow> Idle | Some c \<Rightarrow> Ready n)"
  by (simp add: phase_of_def split: option.splits)

lemma run_script_halted:
  "upload_event inp = None \<Longrightarrow> snd (fst (run_script svc inp (w, s))) = s"
  by (auto simp: upload_event_def run_script_missing_key run_script_no_upload split: if_splits)

lemma run_trace_state:
  "fst (run_trace svc (inp # inps) ws) = fst (run_trace svc inps (fst (run_script svc inp ws)))"
  by (simp split: prod.splits)

lemma rerun_refines_inv:
  assumes inv: "session_inv svc (w, s)" and ok: "rerun_ok svc inp s"
    and run: "run_script svc inp (w, s) = ((w', s'), evs)"
  shows "lifecycle_step svc (phase_of s) (upload_event inp) (phase_of s')"
proof (cases "upload_event inp")
  case None
  with run run_script_halted [OF None, of svc w s] show ?thesis
    by (simp add: lifecycle_step.no_upload)
next
  case (Some f)
  then have key: "\<not> api_key_missing (api_key inp)" and up: "uploaded inp = Some f"
    by (auto simp: upload_event_def split: if_splits)
  from inv have cc: "cache_consistent svc w"
    and wf: "qa_chain s = None \<longleftrightarrow> file_name s = None"
    by (auto simp: session_inv_def)
  from ok have nw: "\<not> write_fails inp" by (simp add: rerun_ok_def)
  show ?thesis
  proof (cases "file_name s = Some (name f)")
    case True
    with wf obtain r where r: "qa_chain s = Some r" by auto
    have "needs_processing s f = Inr False" using True r by (simp add: needs_processing_def)
    from run_script_cached_name [OF key up this] run have s': "s' = s" by simp
    show ?thesis
    proof (cases r)
      case None
      with ok Some True r have "pipeline svc (content f) = None" by (simp add: rerun_ok_def)
      moreover have "phase_of s = Idle" using r None by (simp add: phase_of_def)
      ultimately show ?thesis using Some s' by (simp add: lifecycle_step.failed)
    next
      case (Some c)
      then have "phase_of s = Ready (name f)" using r True by (simp add: phase_of_def)
      with \<open>upload_event inp = Some f\<close> s' show ?thesis by (simp add: lifecycle_step.same_name)
    qed
  next
    case False
    from run_script_new_name [OF inv key up nw False] run
    have s': "phase_of s' = (case pipeline svc (content f) of None \<Rightarrow> Idle | Some c \<Rightarrow> Ready (name f))"
      by (simp add: phase_of_processed)
    have ne: "phase_of s \<noteq> Ready (name f)" using False by (auto simp: phase_of_Ready)
    show ?thesis
      using s' ne Some by (cases "pipeline svc (content f)") (auto intro: lifecycle_step.intros)
  qed
qed

lemma trace_refines_inv:
  "session_inv svc ws \<Longrightarrow> trace_ok svc inps ws \<Longrightarrow>
   lifecycle_steps svc (phase_of (snd ws)) (map upload_event inps) (phase_of (snd (fst (run_trace svc inps ws))))"
proof (induction inps arbitrary: ws)
  case Nil
  then show ?case by (simp add: lifecycle_steps.Nil)
next
  case (Cons inp inps)
  obtain w s ws1 evs1 where ws: "ws = (w, s)" and r1: "run_script svc inp (w, s) = (ws1, evs1)"
    by (metis prod.exhaust)
  obtain w1 s1 where ws1: "ws1 = (w1, s1)" by (cases ws1)
  have inv1: "session_inv svc ws1" using run_script_inv [OF Cons.prems(1), of inp] ws r1 by simp
  have step: "lifecycle_step svc (phase_of s) (upload_event inp) (phase_of s1)"
    using rerun_refines_inv [of svc w s inp w1 s1 evs1] Cons.prems ws r1 ws1 by simp
  have rest: "lifecycle_steps svc (phase_of s1) (map upload_event inps)
                (phase_of (snd (fst (run_trace svc inps ws1))))"
    using Cons.IH [OF inv1] Cons.prems(2) ws r1 ws1 by simp
  show ?case
    using lifecycle_steps.Cons [OF step rest] ws r1 by (simp only: run_trace_state) simp
qed

lemma not_step_Idle_Idle:
  "pipeline svc (content f) \<noteq> None \<Longrightarrow> \<not> lifecycle_step svc Idle (Some f) Idle"
  by (simp add: lifecycle_step_Some_iff)

lemma not_step_keep_other:
  "n \<noteq> name f \<Longrightarrow> \<not> lifecycle_step svc (Ready n) (Some f) (Ready n)"
  by (auto simp: lifecycle_step_Some_iff)

subsection \<open>The reruns refine the spec's orchestrator\<close>

text \<open>
  C22. One rerun from a reachable state moves the abstract phase by a transition of the
  spec's orchestrator: an upload under the active name keeps \<open>Ready\<close>, any other
  upload goes to \<open>Ready\<close> of its name when the pipeline succeeds on its bytes and to
  \<open>Idle\<close> when it fails, and a rerun without an upload keeps the phase. Excluded are
  the reruns that raise at the write of the temporary file and the reruns from a
  session stuck on the \<^verbatim>\<open>None\<close> of a failure (C24, C25).
\<close>

theorem rerun_refines:
  "reachable svc (w, s) \<Longrightarrow> rerun_ok svc inp s \<Longrightarrow> run_script svc inp (w, s) = ((w', s'), evs) \<Longrightarrow>
   lifecycle_step svc (phase_of s) (upload_event inp) (phase_of s')"
  using rerun_refines_inv reachable_inv by blast

text \<open>
  C23. Every sequence of such reruns, run in order from a reachable state, is a run of
  the spec's orchestrator on the sequence of uploads it sees.
\<close>

theorem trace_refines:
  "reachable svc ws \<Longrightarrow> trace_ok svc inps ws \<Longrightarrow>
   lifecycle_steps svc (phase_of (snd ws)) (map upload_event inps) (phase_of (snd (fst (run_trace svc inps ws))))"
  using trace_refines_inv reachable_inv by blast

text \<open>
  C24. The refinement fails on the sessions it excludes: once processing under a name
  failed (the session holds \<^verbatim>\<open>None\<close> under that name), uploading a document under
  the same name whose bytes the pipeline would now process changes nothing and stays
  \<open>Idle\<close>, while the spec's orchestrator, in \<open>Idle\<close>, processes every upload.
\<close>

theorem stuck_name_never_processed:
  assumes key: "\<not> api_key_missing (api_key inp)" and up: "uploaded inp = Some f"
    and stuck: "qa_chain s = Some None" and nm: "file_name s = Some (name f)"
    and ok: "pipeline svc (content f) \<noteq> None"
    and run: "run_script svc inp (w, s) = ((w', s'), evs)"
  shows "w' = w \<and> s' = s \<and> phase_of s' = Idle \<and>
         \<not> lifecycle_step svc (phase_of s) (upload_event inp) (phase_of s')"
proof -
  have "needs_processing s f = Inr False" using stuck nm by (simp add: needs_processing_def)
  from run_script_cached_name [OF key up this] run have "w' = w" "s' = s" by simp_all
  moreover have "phase_of s = Idle" using stuck by (simp add: phase_of_def)
  moreover have "upload_event inp = Some f" using key up by (simp add: upload_event_def)
  ultimately show ?thesis using not_step_Idle_Idle [OF ok] by simp
qed

text \<open>
  C25. A write failure of the temporary file while a document is active (an
  \<^verbatim>\<open>OSError\<close> outside the \<^verbatim>\<open>try\<close>, line 29) ends the rerun with the exception and
  keeps the old session: the old document stays active under its old name, where the
  spec's orchestrator, on the failure of a new upload, moves to \<open>Idle\<close>.
\<close>

theorem write_failure_keeps_old_document:
  assumes key: "\<not> api_key_missing (api_key inp)" and up: "uploaded inp = Some f"
    and wfail: "write_fails inp" and miss: "cache w (content f) = None"
    and other: "file_name s \<noteq> Some (name f)"
    and wf: "qa_chain s = None \<longleftrightarrow> file_name s = None"
    and run: "run_script svc inp (w, s) = ((w', s'), evs)"
  shows "s' = s \<and> last evs = Exception WriteError \<and>
         (phase_of s \<noteq> Idle \<longrightarrow> \<not> lifecycle_step svc (phase_of s) (upload_event inp) (phase_of s'))"
proof -
  have np: "needs_processing s f = Inr True" using other wf by (simp add: needs_processing_inv)
  obtain w1 where pd: "process_document svc inp f w s =
      (Inl WriteError, [Spinner (processing_message f)], w1)"
    using miss wfail by (simp add: process_document_def cached_miss_fails get_qa_chain_write_fails)
  from run_script_process [OF key up np pd] run
  have s': "s' = s" and ev: "last evs = Exception WriteError" by auto
  have "\<not> lifecycle_step svc (phase_of s) (Some f) (phase_of s)" if act: "phase_of s \<noteq> Idle"
  proof -
    obtain n where "phase_of s = Ready n" using act by (cases "phase_of s") simp_all
    moreover have "n \<noteq> name f" using calculation other by (auto simp: phase_of_Ready)
    ultimately show ?thesis using not_step_keep_other by simp
  qed
  with s' ev key up show ?thesis by (simp add: upload_event_def)
qed

subsection \<open>Recovery\<close>

lemma upload_input_facts:
  "\<not> api_key_missing (api_key (upload_input f))" "uploaded (upload_input f) = Some f"
  "\<not> write_fails (upload_input f)"
  by (simp_all add: upload_input_def api_key_missing_def)

lemma name_renamed: "name (renamed f) \<noteq> name f"
  by (simp add: renamed_def)

lemma content_renamed [simp]: "content (renamed f) = content f"
  by (simp add: renamed_def)

lemma upload_ready:
  assumes wf: "qa_chain s = None \<longleftrightarrow> file_name s = None" and other: "file_name s \<noteq> Some (name g)"
    and no_fail: "\<forall>evs. cache w (content g) \<noteq> Some (None, evs)" and ok: "pipeline svc (content g) \<noteq> None"
  shows "phase_of (snd (fst (run_script svc (upload_input g) (w, s)))) = Ready (name g) \<and>
         (\<forall>evs. cache (fst (fst (run_script svc (upload_input g) (w, s)))) (content g) \<noteq> Some (None, evs))"
proof -
  have np: "needs_processing s g = Inr True" using needs_processing_inv [OF wf] other by simp
  note facts = upload_input_facts [of g]
  show ?thesis
  proof (cases "cache w (content g)")
    case None
    from run_script_miss [OF facts(1,2,3) np None, of svc] ok show ?thesis
      by (auto simp: phase_of_processed)
  next
    case (Some e)
    then obtain r evs where hit: "cache w (content g) = Some (r, evs)" by (cases e) auto
    with no_fail obtain c where c: "r = Some c" by (cases r) auto
    from run_script_hit [OF facts(1,2) np hit, of svc] run_script_keeps [OF hit, of svc "upload_input g" s] c
    show ?thesis by (auto simp: phase_of_processed)
  qed
qed

text \<open>
  C29. Progress: whatever the services did before (a hosted API may have failed at
  earlier reruns), from any session whose two attributes are set together, a document
  that the services now process becomes the active one within two reruns that only
  upload files, provided its bytes are not cached as a failure: directly when the
  session holds another name, and after uploading it once under another name when the
  session is stuck on a failure under its own name (C24). The spec's "system remains
  ready for a new upload" holds in this weaker form; C33 shows the proviso is needed.
\<close>

theorem ready_reachable:
  assumes wf: "qa_chain s = None \<longleftrightarrow> file_name s = None"
    and no_fail: "\<forall>evs. cache w (content f) \<noteq> Some (None, evs)" and ok: "pipeline svc (content f) \<noteq> None"
  shows "\<exists>gs. length gs \<le> 2 \<and> set gs \<subseteq> {f, renamed f} \<and>
           phase_of (snd (fst (run_trace svc (map upload_input gs) (w, s)))) = Ready (name f)"
proof (cases "file_name s = Some (name f)")
  case False
  from upload_ready [OF wf False no_fail ok]
  have "phase_of (snd (fst (run_trace svc (map upload_input [f]) (w, s)))) = Ready (name f)"
    by (simp add: run_trace_state)
  then show ?thesis by (intro exI [of _ "[f]"]) simp
next
  case True
  obtain w1 s1 evs1 where r1: "run_script svc (upload_input (renamed f)) (w, s) = ((w1, s1), evs1)"
    by (metis prod.exhaust)
  have other1: "file_name s \<noteq> Some (name (renamed f))" using True name_renamed [THEN not_sym] by simp
  from upload_ready [OF wf other1, of w svc] no_fail ok r1
  have ready1: "phase_of s1 = Ready (name (renamed f))"
    and no_fail1: "\<forall>evs. cache w1 (content f) \<noteq> Some (None, evs)" by simp_all
  from ready1 have wf1: "qa_chain s1 = None \<longleftrightarrow> file_name s1 = None"
    and other2: "file_name s1 \<noteq> Some (name f)"
    using name_renamed by (auto simp: phase_of_Ready)
  from upload_ready [OF wf1 other2 no_fail1 ok]
  have "phase_of (snd (fst (run_trace svc (map upload_input [renamed f, f]) (w, s)))) = Ready (name f)"
    using r1 by (simp only: list.map run_trace_state) simp
  then show ?thesis by (intro exI [of _ "[renamed f, f]"]) simp
qed

subsection \<open>Witnesses\<close>

lemma demo_after_phase: "phase_of (snd demo_after) = Ready ''doc.pdf''"
  by (simp add: demo_after_session demo_pipeline phase_of_def)

lemma stuck_after_state:
  "snd stuck_after = \<lparr>qa_chain = Some None, file_name = Some ''doc.pdf''\<rparr>"
proof -
  obtain w' s' evs where run:
      "run_script demo_services (question_input stuck_file) (demo_world, init_session) = ((w', s'), evs)"
    by (metis prod.exhaust)
  have key: "\<not> api_key_missing (api_key (question_input stuck_file))"
    and up: "uploaded (question_input stuck_file) = Some stuck_file"
    and nw: "\<not> write_fails (question_input stuck_file)"
    by (simp_all add: question_input_facts)
  have cc: "cache_consistent demo_services demo_world"
    by (rule demo_world_consistent)
  have np: "needs_processing init_session stuck_file = Inr True"
    by (simp add: needs_processing_def init_session_def)
  obtain s1 evs1 w1 where pd: "process_document demo_services (question_input stuck_file) stuck_file
      demo_world init_session = (Inr s1, evs1, w1)"
    using process_document_no_raise [OF nw] by blast
  have "pipeline demo_services (content stuck_file) = None"
    by (simp add: pipeline_def demo_services_def stuck_file_def)
  with process_document_result [OF cc pd] run_script_process [OF key up np pd] run
  show ?thesis by (simp add: init_session_def stuck_file_def)
qed

lemma stuck_after_reachable: "reachable demo_services stuck_after"
  by (rule demo_first_run_reachable)

lemma demo_after_cache:
  "cache (fst demo_after) = [content demo_pdf \<mapsto> (pipeline demo_services (content demo_pdf), [])]"
  by (simp add: demo_run)

lemma demo_input_facts:
  "upload_event (question_input demo_pdf) = Some demo_pdf"
  "rerun_ok demo_services (question_input demo_pdf) init_session"
  "phase_of init_session = Idle"
  by (simp_all add: upload_event_def question_input_def api_key_missing_def rerun_ok_def
      init_session_def phase_of_def)

theorem rerun_refines_witness:
  "lifecycle_step demo_services Idle (Some demo_pdf) (Ready ''doc.pdf'')"
proof -
  obtain w' s' evs where run:
      "run_script demo_services (question_input demo_pdf) (demo_world, init_session) = ((w', s'), evs)"
    by (metis prod.exhaust)
  have "s' = snd demo_after" using run by simp
  with rerun_refines [OF demo_start_reachable demo_input_facts(2) run]
  show ?thesis by (simp add: demo_input_facts demo_after_phase)
qed

theorem trace_refines_witness:
  "lifecycle_steps demo_services Idle [Some demo_pdf, Some demo_pdf] (Ready ''doc.pdf'')"
proof -
  let ?i = "question_input demo_pdf"
  have again: "run_script demo_services ?i demo_after =
      (demo_after, page_header @ handle_question demo_services ''What is this?'' (snd demo_after))"
  proof -
    obtain w s where ws: "demo_after = (w, s)" by (metis prod.exhaust)
    have "needs_processing s demo_pdf = Inr False"
      using ws demo_after_session by (simp add: needs_processing_def demo_pdf_def)
    then show ?thesis
      using run_script_cached_name [of ?i demo_pdf s demo_services w] ws
      by (simp add: question_input_facts)
  qed
  have "qa_chain (snd demo_after) \<noteq> Some None"
    by (simp add: demo_after_session demo_pipeline)
  then have ok2: "rerun_ok demo_services ?i (snd demo_after)"
    by (simp add: rerun_ok_def question_input_def split: option.splits)
  have ok: "trace_ok demo_services [?i, ?i] (demo_world, init_session)"
    using demo_input_facts(2) ok2 again by simp
  have fin: "snd (fst (run_trace demo_services [?i, ?i] (demo_world, init_session))) = snd demo_after"
    by (simp only: run_trace_state again) simp
  from trace_refines [OF demo_start_reachable ok]
  show ?thesis by (simp only: fin demo_after_phase list.map demo_input_facts snd_conv)
qed

theorem stuck_name_never_processed_witness:
  "reachable demo_services stuck_after \<and> pipeline demo_services (content demo_pdf) \<noteq> None \<and>
   \<not> lifecycle_step demo_services (phase_of (snd stuck_after)) (Some demo_pdf)
       (phase_of (snd (fst (run_script demo_services (question_input demo_pdf) stuck_after))))"
proof -
  obtain w s where ws: "stuck_after = (w, s)" by (metis prod.exhaust)
  obtain w' s' evs where run: "run_script demo_services (question_input demo_pdf) (w, s) = ((w', s'), evs)"
    by (metis prod.exhaust)
  have key: "\<not> api_key_missing (api_key (question_input demo_pdf))"
    and up: "uploaded (question_input demo_pdf) = Some demo_pdf"
    by (simp_all add: question_input_facts)
  have st: "qa_chain s = Some None" and nm: "file_name s = Some (name demo_pdf)"
    using ws stuck_after_state by (simp_all add: demo_pdf_def)
  have ok: "pipeline demo_services (content demo_pdf) \<noteq> None" by (simp add: demo_pipeline)
  note r = stuck_name_never_processed [OF key up st nm ok run]
  have eq: "s' = s" using r by simp
  have "\<not> lifecycle_step demo_services (phase_of s) (Some demo_pdf) (phase_of s')"
    using r unfolding demo_input_facts(1) by blast
  then show ?thesis using eq ws run ok stuck_after_reachable by simp
qed

theorem write_failure_keeps_old_document_witness:
  "snd (fst (run_script demo_services failing_write_input demo_after)) = snd demo_after \<and>
   last (snd (run_script demo_services failing_write_input demo_after)) = Exception WriteError \<and>
   \<not> lifecycle_step demo_services (Ready ''doc.pdf'') (Some other_pdf) (Ready ''doc.pdf'')"
proof -
  obtain w s where ws: "demo_after = (w, s)" by (metis prod.exhaust)
  obtain w' s' evs where run: "run_script demo_services failing_write_input (w, s) = ((w', s'), evs)"
    by (metis prod.exhaust)
  have key: "\<not> api_key_missing (api_key failing_write_input)"
    and up: "uploaded failing_write_input = Some other_pdf"
    and wfail: "write_fails failing_write_input"
    by (simp_all add: failing_write_input_def question_input_def api_key_missing_def)
  have miss: "cache w (content other_pdf) = None"
    using ws demo_after_cache by (simp add: other_pdf_def demo_pdf_def)
  have other: "file_name s \<noteq> Some (name other_pdf)" and wf: "qa_chain s = None \<longleftrightarrow> file_name s = None"
    using ws demo_after_session by (simp_all add: other_pdf_def)
  have ph: "phase_of s = Ready ''doc.pdf''" using ws demo_after_phase by simp
  from write_failure_keeps_old_document [OF key up wfail miss other wf run]
  have "s' = s" "last evs = Exception WriteError"
    "\<not> lifecycle_step demo_services (Ready ''doc.pdf'') (Some other_pdf) (Ready ''doc.pdf'')"
    using ph up key by (auto simp: upload_event_def)
  then show ?thesis using ws run by simp
qed

theorem ready_reachable_witness:
  "phase_of (snd stuck_after) = Idle \<and>
   (\<exists>gs. length gs \<le> 2 \<and> set gs \<subseteq> {demo_pdf, renamed demo_pdf} \<and>
      phase_of (snd (fst (run_trace demo_services (map upload_input gs) stuck_after))) = Ready ''doc.pdf'')"
proof -
  obtain w s where ws: "stuck_after = (w, s)" by (metis prod.exhaust)
  have wf: "qa_chain s = None \<longleftrightarrow> file_name s = None" using ws stuck_after_state by simp
  have "\<forall>h. uploaded (question_input stuck_file) = Some h \<longrightarrow> content h \<noteq> content demo_pdf"
    by (simp add: question_input_facts stuck_file_def demo_pdf_def)
  from run_script_frame [OF this, of demo_services demo_world init_session]
  have "cache w (content demo_pdf) = None" using ws by (simp add: demo_world_def)
  then have no_fail: "\<forall>evs. cache w (content demo_pdf) \<noteq> Some (None, evs)" by simp
  have ok: "pipeline demo_services (content demo_pdf) \<noteq> None" by (simp add: demo_pipeline)
  have idle: "phase_of s = Idle" using ws stuck_after_state by (simp add: phase_of_def)
  from ready_reachable [OF wf no_fail ok] have "\<exists>gs. length gs \<le> 2 \<and> set gs \<subseteq> {demo_pdf, renamed demo_pdf} \<and>
      phase_of (snd (fst (run_trace demo_services (map upload_input gs) (w, s)))) = Ready ''doc.pdf''"
    by (simp add: demo_pdf_def)
  then show ?thesis using idle ws by simp
qed

end
