(* ===== verification/Interleave.thy ===== *)
theory Interleave
  imports Lifecycle
begin

text \<open>
  Many sessions in one process. Streamlit serves every browser session with its own
  \<^verbatim>\<open>st.session_state\<close> and runs each session's reruns of \<^verbatim>\<open>src/app.py\<close> against
  the one process-wide state (file system, resource cache). A schedule is the order in
  which reruns of the sessions happen, each rerun taken as one step (the granularity at
  which the model interleaves sessions) and carrying the services as they behave at
  that moment, so that a hosted API may fail at one rerun and work at the next.
  \<open>rerun_view\<close> is what one rerun shows its user and does to its session with the
  process state taken out: processing is the pure \<open>pipeline\<close> and the error it
  renders. The theory proves that a rerun refines this view whenever the cache holds
  what the pipeline makes and renders of its keys and the write of the temporary file
  succeeds; that a rerun reads and writes the shared cache only at the bytes it
  uploads, so sessions that upload different documents cannot observe each other; and
  that sessions sharing a document do interfere, through a failed write and through a
  failure of the services, which the cache keeps for the life of the process.
\<close>

definition render :: "services \<Rightarrow> bytes \<Rightarrow> ui_event list" where
  "render svc b =
     (case sbind (load_pdf svc b) (build_qa_chain svc) of
        Inl e \<Rightarrow> [ErrorBox (''Error processing PDF: '' @ error_text e)]
      | Inr _ \<Rightarrow> [])"

definition cache_renders :: "services \<Rightarrow> world \<Rightarrow> bool" where
  "cache_renders svc w \<longleftrightarrow> (\<forall>b r evs. cache w b = Some (r, evs) \<longrightarrow> evs = render svc b)"

definition world_ok :: "services \<Rightarrow> world \<Rightarrow> bool" where
  "world_ok svc w \<longleftrightarrow> cache_consistent svc w \<and> cache_renders svc w"

definition rerun_view :: "services \<Rightarrow> script_input \<Rightarrow> session \<Rightarrow> session \<times> ui_event list" where
  "rerun_view svc inp s =
     (if api_key_missing (api_key inp) then (s, [ErrorBox missing_key_message])
      else
        (case uploaded inp of
           None \<Rightarrow> (s, page_header @ [Info upload_prompt])
         | Some f \<Rightarrow>
             (case needs_processing s f of
                Inl e \<Rightarrow> (s, page_header @ [Exception e])
              | Inr False \<Rightarrow> (s, page_header @ handle_question svc (user_question inp) s)
              | Inr True \<Rightarrow>
                  (let r = pipeline svc (content f);
                       s' = s\<lparr>qa_chain := Some r, file_name := Some (name f)\<rparr>
                   in (s', page_header @ Spinner (processing_message f) # render svc (content f) @
                           [if r \<noteq> None then Success ''Document processed! You can now ask questions.''
                            else ErrorBox ''Failed to process document. Please try again.''] @
                           handle_question svc (user_question inp) s')))))"

text \<open>
  The process: the shared state and one \<^verbatim>\<open>st.session_state\<close> per session id. A step
  runs one rerun of one session; a schedule logs which session saw which elements.
\<close>

type_synonym sid = nat

type_synonym schedule = "(sid \<times> services \<times> script_input) list"

definition run_session ::
  "sid \<times> services \<times> script_input \<Rightarrow> world \<times> (sid \<Rightarrow> session) \<Rightarrow>
   (world \<times> (sid \<Rightarrow> session)) \<times> ui_event list" where
  "run_session ev st =
     (case ev of (i, svc, inp) \<Rightarrow> case st of (w, ss) \<Rightarrow>
        (case run_script svc inp (w, ss i) of ((w', s'), evs) \<Rightarrow> ((w', ss(i := s')), evs)))"

fun run_schedule ::
  "schedule \<Rightarrow> world \<times> (sid \<Rightarrow> session) \<Rightarrow> (world \<times> (sid \<Rightarrow> session)) \<times> (sid \<times> ui_event list) list" where
  "run_schedule [] st = (st, [])"
| "run_schedule (ev # sched) st =
     (case run_session ev st of
        (st1, evs) \<Rightarrow> (case run_schedule sched st1 of (st2, out) \<Rightarrow> (st2, (fst ev, evs) # out)))"

definition session_view :: "sid \<Rightarrow> (sid \<times> ui_event list) list \<Rightarrow> ui_event list" where
  "session_view i out = concat (map snd (filter (\<lambda>e. fst e = i) out))"

text \<open>The bytes of the files session \<open>i\<close> uploads in a schedule.\<close>

definition docs_of :: "sid \<Rightarrow> schedule \<Rightarrow> bytes set" where
  "docs_of i sched =
     set (List.map_filter (\<lambda>e. if fst e = i then map_option content (uploaded (snd (snd e))) else None) sched)"

definition write_failing :: "uploaded_file \<Rightarrow> script_input" where
  "write_failing f = (question_input f)\<lparr>write_fails := True\<rparr>"

subsection \<open>The cache holds what the pipeline renders\<close>

lemma get_qa_chain_render:
  "get_qa_chain_from_pdf svc f tmp False w =
     (Inr (pipeline svc (content f)), render svc (content f),
      w\<lparr>fs := (fs w)(tmp := None), console := console w @ [''--- Processing '' @ name f @ '' ---''],
        loader_calls := Suc (loader_calls w)\<rparr>)"
  by (simp add: get_qa_chain_writes render_def pipeline_def Let_def split: sum.splits)

lemma cached_miss_render:
  "cache w (content f) = None \<Longrightarrow>
   cached_get_qa_chain svc f tmp False w =
     (Inr (pipeline svc (content f)), render svc (content f),
      w\<lparr>fs := (fs w)(tmp := None), console := console w @ [''--- Processing '' @ name f @ '' ---''],
        loader_calls := Suc (loader_calls w),
        cache := (cache w)(content f \<mapsto> (pipeline svc (content f), render svc (content f)))\<rparr>)"
  by (simp add: cached_miss_ok get_qa_chain_render)

lemma cached_renders:
  assumes "cache_renders svc w" and "cached_get_qa_chain svc f tmp fails w = (r, evs, w')"
  shows "cache_renders svc w'"
proof (cases "cache w (content f)")
  case (Some entry)
  then obtain r0 evs0 where "cache w (content f) = Some (r0, evs0)" by (cases entry) auto
  with assms show ?thesis by (simp add: cached_hit)
next
  case None
  with assms show ?thesis
    by (cases fails)
       (auto simp: cached_miss_fails get_qa_chain_write_fails cached_miss_render cache_renders_def
          split: if_splits)
qed

lemma cached_ok:
  assumes ok: "world_ok svc w" and call: "cached_get_qa_chain svc f tmp False w = (r, evs, w')"
  shows "r = Inr (pipeline svc (content f)) \<and> evs = render svc (content f) \<and> world_ok svc w'"
proof (cases "cache w (content f)")
  case (Some entry)
  then obtain r0 evs0 where e: "cache w (content f) = Some (r0, evs0)" by (cases entry) auto
  with ok call show ?thesis
    by (auto simp: cached_hit world_ok_def cache_consistent_def cache_renders_def)
next
  case None
  with ok call show ?thesis
    by (auto simp: cached_miss_render world_ok_def cache_consistent_def cache_renders_def
        split: if_splits)
qed

lemma world_ok_cached:
  "world_ok svc w \<Longrightarrow> cached_get_qa_chain svc f tmp fails w = (r, evs, w') \<Longrightarrow> world_ok svc w'"
  using cached_consistent cached_renders by (auto simp: world_ok_def)

lemma world_ok_run_script:
  "world_ok svc w \<Longrightarrow> world_ok svc (fst (fst (run_script svc inp (w, s))))"
  using run_script_world [of svc inp w s] world_ok_cached by auto

subsection \<open>One rerun\<close>

lemma run_schedule_step:
  "run_script svc inp (w, ss j) = ((w', s'), evs) \<Longrightarrow>
   run_schedule ((j, svc, inp) # sched) (w, ss) =
     (fst (run_schedule sched (w', ss(j := s'))), (j, evs) # snd (run_schedule sched (w', ss(j := s'))))"
  by (simp add: run_session_def split: prod.splits)

lemma session_view_Cons:
  "session_view i ((j, evs) # out) = (if j = i then evs @ session_view i out else session_view i out)"
  by (simp add: session_view_def)

lemma docs_of_Cons:
  "docs_of i ((j, svc, inp) # sched) =
     (if j = i then set_option (map_option content (uploaded inp)) \<union> docs_of i sched else docs_of i sched)"
  by (cases "uploaded inp") (auto simp: docs_of_def List.map_filter_simps)

lemma run_script_failed_idle:
  assumes hit: "cache w b = Some (None, evs)" and only: "\<forall>f. uploaded inp = Some f \<longrightarrow> content f = b"
    and idle: "phase_of s = Idle"
  shows "phase_of (snd (fst (run_script svc inp (w, s)))) = Idle"
proof (cases "\<not> api_key_missing (api_key inp) \<and> uploaded inp \<noteq> None")
  case False
  with idle show ?thesis
    by (cases "api_key_missing (api_key inp)") (auto simp: run_script_missing_key run_script_no_upload)
next
  case True
  then obtain f where key: "\<not> api_key_missing (api_key inp)" and up: "uploaded inp = Some f" by auto
  have h: "cache w (content f) = Some (None, evs)" using hit only up by simp
  show ?thesis
  proof (cases "needs_processing s f")
    case (Inl e)
    with key up idle show ?thesis by (simp add: run_script_def)
  next
    case (Inr b)
    show ?thesis
    proof (cases b)
      case False
      with Inr key up idle show ?thesis by (simp add: run_script_cached_name)
    next
      case True
      from run_script_hit [OF key up _ h] Inr True show ?thesis by (simp add: phase_of_processed)
    qed
  qed
qed

lemma run_script_view:
  assumes ok: "world_ok svc w" and nw: "\<not> write_fails inp"
  shows "\<exists>w'. run_script svc inp (w, s) = ((w', fst (rerun_view svc inp s)), snd (rerun_view svc inp s))"
proof (cases "\<not> api_key_missing (api_key inp) \<and> uploaded inp \<noteq> None")
  case False
  then show ?thesis
    by (cases "api_key_missing (api_key inp)")
       (auto simp: run_script_missing_key run_script_no_upload rerun_view_def)
next
  case True
  then obtain f where key: "\<not> api_key_missing (api_key inp)" and up: "uploaded inp = Some f" by auto
  show ?thesis
  proof (cases "needs_processing s f")
    case (Inl e)
    with key up show ?thesis by (simp add: run_script_def rerun_view_def)
  next
    case (Inr b)
    show ?thesis
    proof (cases b)
      case False
      with Inr key up show ?thesis by (simp add: run_script_cached_name rerun_view_def)
    next
      case True
      obtain r evs w' where c: "cached_get_qa_chain svc f (tmp_path inp) False w = (r, evs, w')"
        by (metis prod.exhaust)
      from cached_ok [OF ok c] have r: "r = Inr (pipeline svc (content f))"
        and evs: "evs = render svc (content f)" by simp_all
      let ?s' = "s\<lparr>qa_chain := Some (pipeline svc (content f)), file_name := Some (name f)\<rparr>"
      have pd: "process_document svc inp f w s =
          (Inr ?s', Spinner (processing_message f) # render svc (content f) @
             [if pipeline svc (content f) \<noteq> None then Success ''Document processed! You can now ask questions.''
              else ErrorBox ''Failed to process document. Please try again.''], w')"
        using c r evs nw by (simp add: process_document_def)
      from run_script_process [OF key up _ pd] Inr True key up show ?thesis
        by (simp add: rerun_view_def Let_def)
    qed
  qed
qed

subsection \<open>Sessions that upload different documents\<close>

lemma schedule_local:
  assumes "\<forall>e \<in> set sched. fst e \<noteq> i \<longrightarrow> (\<forall>f. uploaded (snd (snd e)) = Some f \<longrightarrow> content f \<notin> K)"
    and "docs_of i sched \<subseteq> K" and "\<forall>k \<in> K. cache w1 k = cache w2 k" and "ss1 i = ss2 i"
  shows "snd (fst (run_schedule sched (w1, ss1))) i =
           snd (fst (run_schedule (filter (\<lambda>e. fst e = i) sched) (w2, ss2))) i \<and>
         session_view i (snd (run_schedule sched (w1, ss1))) =
           session_view i (snd (run_schedule (filter (\<lambda>e. fst e = i) sched) (w2, ss2)))"
  using assms
proof (induction sched arbitrary: w1 w2 ss1 ss2)
  case Nil
  then show ?case by (simp add: session_view_def)
next
  case (Cons ev sched)
  obtain j svc inp where ev: "ev = (j, svc, inp)" by (cases ev) auto
  obtain w1' s1 evs1 where r1: "run_script svc inp (w1, ss1 j) = ((w1', s1), evs1)"
    by (metis prod.exhaust)
  have others: "\<forall>e \<in> set sched. fst e \<noteq> i \<longrightarrow> (\<forall>f. uploaded (snd (snd e)) = Some f \<longrightarrow> content f \<notin> K)"
    using Cons.prems(1) by simp
  have docs: "docs_of i sched \<subseteq> K" using Cons.prems(2) ev by (auto simp: docs_of_Cons split: if_splits)
  show ?case
  proof (cases "j = i")
    case True
    obtain w2' s2 evs2 where r2: "run_script svc inp (w2, ss1 j) = ((w2', s2), evs2)"
      by (metis prod.exhaust)
    have inK: "\<forall>f. uploaded inp = Some f \<longrightarrow> content f \<in> K"
      using Cons.prems(2) True ev by (auto simp: docs_of_Cons)
    then have "\<forall>f. uploaded inp = Some f \<longrightarrow> cache w1 (content f) = cache w2 (content f)"
      using Cons.prems(3) by blast
    from run_script_local [OF r1 r2 this]
    have eq: "s1 = s2" "evs1 = evs2"
      and at: "\<forall>f. uploaded inp = Some f \<longrightarrow> cache w1' (content f) = cache w2' (content f)" by auto
    have "cache w1' k = cache w2' k" if k: "k \<in> K" for k
    proof (cases "\<exists>f. uploaded inp = Some f \<and> content f = k")
      case True
      with at show ?thesis by auto
    next
      case False
      then have "\<forall>f. uploaded inp = Some f \<longrightarrow> content f \<noteq> k" by auto
      from run_script_frame [OF this, of svc w1 "ss1 j"] run_script_frame [OF this, of svc w2 "ss1 j"]
      show ?thesis using r1 r2 k Cons.prems(3) by simp
    qed
    then have agree: "\<forall>k \<in> K. cache w1' k = cache w2' k" by blast
    have r2': "run_script svc inp (w2, ss2 j) = ((w2', s1), evs1)"
      using r2 eq Cons.prems(4) True by simp
    have IH: "snd (fst (run_schedule sched (w1', ss1(j := s1)))) i =
          snd (fst (run_schedule (filter (\<lambda>e. fst e = i) sched) (w2', ss2(j := s1)))) i \<and>
        session_view i (snd (run_schedule sched (w1', ss1(j := s1)))) =
          session_view i (snd (run_schedule (filter (\<lambda>e. fst e = i) sched) (w2', ss2(j := s1))))"
      by (rule Cons.IH [OF others docs agree]) (use Cons.prems(4) in simp)
    show ?thesis
      using IH run_schedule_step [where ss = ss1 and j = j, OF r1]
        run_schedule_step [where ss = ss2 and j = j, OF r2'] ev True
      by (simp del: run_schedule.simps add: session_view_Cons)
  next
    case False
    have "\<forall>f. uploaded inp = Some f \<longrightarrow> content f \<notin> K" using Cons.prems(1) ev False by auto
    then have "cache w1' k = cache w1 k" if "k \<in> K" for k
      using run_script_frame [of inp k svc w1 "ss1 j"] r1 that by auto
    then have agree: "\<forall>k \<in> K. cache w1' k = cache w2 k" using Cons.prems(3) by simp
    have IH: "snd (fst (run_schedule sched (w1', ss1(j := s1)))) i =
          snd (fst (run_schedule (filter (\<lambda>e. fst e = i) sched) (w2, ss2))) i \<and>
        session_view i (snd (run_schedule sched (w1', ss1(j := s1)))) =
          session_view i (snd (run_schedule (filter (\<lambda>e. fst e = i) sched) (w2, ss2)))"
      by (rule Cons.IH [OF others docs agree]) (use False Cons.prems(4) in simp)
    show ?thesis
      using IH run_schedule_step [where ss = ss1 and j = j, OF r1] ev False
      by (simp del: run_schedule.simps add: session_view_Cons)
  qed
qed

text \<open>
  C30. Sessions that upload different documents do not interfere: in every
  interleaving of reruns of several sessions, whatever the services do at each rerun
  (a hosted API may fail at one and work at the next) and whether or not the write of
  a temporary file fails, a session none of whose documents' bytes is uploaded by
  another session ends in the state, and is shown the elements, that its own reruns
  alone on the same process would give. A rerun reads and writes the process-wide
  cache only at the bytes it uploads.
\<close>

theorem sessions_do_not_interfere:
  assumes "\<forall>e \<in> set sched. fst e \<noteq> i \<longrightarrow> (\<forall>f. uploaded (snd (snd e)) = Some f \<longrightarrow> content f \<notin> docs_of i sched)"
  shows "snd (fst (run_schedule sched (w, ss))) i =
           snd (fst (run_schedule (filter (\<lambda>e. fst e = i) sched) (w, ss))) i \<and>
         session_view i (snd (run_schedule sched (w, ss))) =
           session_view i (snd (run_schedule (filter (\<lambda>e. fst e = i) sched) (w, ss)))"
  using schedule_local [OF assms subset_refl] by blast

text \<open>
  C31. A rerun that does not fail at the write of the temporary file refines its view:
  the session it leaves and the elements it shows are \<open>rerun_view\<close> of its input and
  the session, whatever the process state, and the process state it leaves again holds
  in its cache what the pipeline makes and renders.
\<close>

theorem rerun_refines_view:
  assumes "world_ok svc w" and "\<not> write_fails inp"
  shows "\<exists>w'. run_script svc inp (w, s) = ((w', fst (rerun_view svc inp s)), snd (rerun_view svc inp s)) \<and>
              world_ok svc w'"
proof -
  obtain w' where r: "run_script svc inp (w, s) =
      ((w', fst (rerun_view svc inp s)), snd (rerun_view svc inp s))"
    using run_script_view [OF assms] by blast
  moreover have "world_ok svc w'" using world_ok_run_script [OF assms(1), of inp s] r by simp
  ultimately show ?thesis by blast
qed



subsection \<open>Witnesses\<close>

lemma demo_world_ok: "world_ok svc demo_world"
  by (simp add: world_ok_def cache_consistent_def cache_renders_def demo_world_def)

theorem sessions_do_not_interfere_witness:
  "snd (fst (run_schedule [(1, demo_services, question_input demo_pdf), (0, demo_services, question_input fake_pdf)]
      (demo_world, \<lambda>_. init_session))) 1 =
   snd (fst (run_schedule [(1, demo_services, question_input demo_pdf)] (demo_world, \<lambda>_. init_session))) 1"
proof -
  have "\<forall>e \<in> set [(1::sid, demo_services, question_input demo_pdf), (0, demo_services, question_input fake_pdf)].
      fst e \<noteq> 1 \<longrightarrow> (\<forall>f. uploaded (snd (snd e)) = Some f \<longrightarrow>
        content f \<notin> docs_of 1 [(1, demo_services, question_input demo_pdf), (0, demo_services, question_input fake_pdf)])"
    by (simp add: docs_of_def List.map_filter_simps question_input_def fake_pdf_def demo_pdf_def)
  from sessions_do_not_interfere [OF this, of demo_world "\<lambda>_. init_session"] show ?thesis by simp
qed

theorem rerun_refines_view_witness:
  "\<exists>w'. run_script demo_services (question_input demo_pdf) (demo_world, init_session) =
     ((w', fst (rerun_view demo_services (question_input demo_pdf) init_session)),
      snd (rerun_view demo_services (question_input demo_pdf) init_session)) \<and> world_ok demo_services w'"
  using rerun_refines_view [OF demo_world_ok [of demo_services], of "question_input demo_pdf" init_session]
  by (simp add: question_input_def)

lemma write_failing_facts:
  "\<not> api_key_missing (api_key (write_failing f))" "uploaded (write_failing f) = Some f"
  "write_fails (write_failing f)"
  by (simp_all add: write_failing_def question_input_def api_key_missing_def)



end
