(* ===== verification/CacheLocks.thy ===== *)
theory CacheLocks
  imports Session
begin

text \<open>
  Concurrent calls of the cached \<^verbatim>\<open>get_qa_chain_from_pdf\<close> (\<^verbatim>\<open>src/app.py\<close>
  lines 24--25). Streamlit runs the reruns of different sessions on different threads,
  so two sessions can call the cached function at the same time. Streamlit's resource
  cache (library code, modelled from its implementation) looks the key up; on a miss
  it takes a lock held per key, looks the key up again under the lock, and only if it is
  still missing runs the function, stores a returned value (not a raised exception) and
  releases the lock. Each thread \<open>t\<close> makes one call, \<open>jobs t\<close> (the upload, the
  temporary path, whether the write fails); \<open>pcs\<close> is where each call is, and the body
  of the function runs as one step under the lock. The theory proves that in every
  interleaving the loader still runs once per cached key, at most one call per key
  runs the function, every call returns what the pipeline makes of its bytes (or the
  write error), and no call is ever stuck.
\<close>

datatype call_pc = Begin | Blocked | Locked | Finished

record threads =
  world_of :: world
  pcs :: "nat \<Rightarrow> call_pc"
  lock_holder :: "bytes \<rightharpoonup> nat"
  result :: "nat \<Rightarrow> (error + qa_chain option) option"

type_synonym jobs = "nat \<Rightarrow> uploaded_file \<times> path \<times> bool"

definition job_key :: "jobs \<Rightarrow> nat \<Rightarrow> bytes" where
  "job_key jobs t = content (fst (jobs t))"

text \<open>The miss path under the lock: run the function, store what it returns.\<close>

definition compute_and_store ::
  "services \<Rightarrow> uploaded_file \<Rightarrow> path \<Rightarrow> bool \<Rightarrow> world \<Rightarrow> (error + qa_chain option) \<times> world" where
  "compute_and_store svc f tmp fails w =
     (case get_qa_chain_from_pdf svc f tmp fails w of
        (Inl e, evs, w') \<Rightarrow> (Inl e, w')
      | (Inr r, evs, w') \<Rightarrow> (Inr r, w'\<lparr>cache := (cache w')(content f \<mapsto> (r, evs))\<rparr>))"

inductive cache_step :: "services \<Rightarrow> jobs \<Rightarrow> threads \<Rightarrow> threads \<Rightarrow> bool" for svc jobs where
  hit: "pcs s t = Begin \<Longrightarrow> cache (world_of s) (job_key jobs t) = Some (r, evs) \<Longrightarrow>
        cache_step svc jobs s (s\<lparr>pcs := (pcs s)(t := Finished), result := (result s)(t := Some (Inr r))\<rparr>)"
| miss: "pcs s t = Begin \<Longrightarrow> cache (world_of s) (job_key jobs t) = None \<Longrightarrow>
        cache_step svc jobs s (s\<lparr>pcs := (pcs s)(t := Blocked)\<rparr>)"
| acquire: "pcs s t = Blocked \<Longrightarrow> lock_holder s (job_key jobs t) = None \<Longrightarrow>
        cache_step svc jobs s (s\<lparr>pcs := (pcs s)(t := Locked), lock_holder := (lock_holder s)(job_key jobs t \<mapsto> t)\<rparr>)"
| recheck_hit: "pcs s t = Locked \<Longrightarrow> cache (world_of s) (job_key jobs t) = Some (r, evs) \<Longrightarrow>
        cache_step svc jobs s (s\<lparr>pcs := (pcs s)(t := Finished), lock_holder := (lock_holder s)(job_key jobs t := None),
                                 result := (result s)(t := Some (Inr r))\<rparr>)"
| compute: "pcs s t = Locked \<Longrightarrow> cache (world_of s) (job_key jobs t) = None \<Longrightarrow> jobs t = (f, tmp, fails) \<Longrightarrow>
        compute_and_store svc f tmp fails (world_of s) = (r, w') \<Longrightarrow>
        cache_step svc jobs s (s\<lparr>world_of := w', pcs := (pcs s)(t := Finished),
                                 lock_holder := (lock_holder s)(job_key jobs t := None), result := (result s)(t := Some r)\<rparr>)"

definition threads_init :: "world \<Rightarrow> threads" where
  "threads_init w = \<lparr>world_of = w, pcs = (\<lambda>_. Begin), lock_holder = Map.empty, result = (\<lambda>_. None)\<rparr>"

inductive threads_reachable :: "services \<Rightarrow> jobs \<Rightarrow> threads \<Rightarrow> bool" for svc jobs where
  start: "cache w = Map.empty \<Longrightarrow> loader_calls w = 0 \<Longrightarrow> threads_reachable svc jobs (threads_init w)"
| step: "threads_reachable svc jobs s \<Longrightarrow> cache_step svc jobs s s' \<Longrightarrow> threads_reachable svc jobs s'"

text \<open>The lock table and the calls agree: a key is held exactly by a call on it under the lock.\<close>

definition locks_ok :: "jobs \<Rightarrow> (nat \<Rightarrow> call_pc) \<Rightarrow> (bytes \<rightharpoonup> nat) \<Rightarrow> bool" where
  "locks_ok jobs P H \<longleftrightarrow>
     (\<forall>k t. H k = Some t \<longrightarrow> P t = Locked \<and> job_key jobs t = k) \<and>
     (\<forall>t. P t = Locked \<longrightarrow> H (job_key jobs t) = Some t)"

definition threads_inv :: "services \<Rightarrow> jobs \<Rightarrow> threads \<Rightarrow> bool" where
  "threads_inv svc jobs s \<longleftrightarrow>
     loader_inv (world_of s) \<and> cache_consistent svc (world_of s) \<and>
     locks_ok jobs (pcs s) (lock_holder s) \<and>
     (\<forall>t r. result s t = Some r \<longrightarrow> r = Inr (pipeline svc (job_key jobs t)) \<or> r = Inl WriteError)"

text \<open>Two sessions upload the same document at the same time.\<close>

definition demo_jobs :: jobs where
  "demo_jobs = (\<lambda>t. (demo_pdf, 7 + t, False))"

subsection \<open>The miss path is the cached call on a miss\<close>

lemma compute_and_store_cached:
  "cache w (content f) = None \<Longrightarrow> compute_and_store svc f tmp fails w = (r, w') \<Longrightarrow>
   \<exists>evs. cached_get_qa_chain svc f tmp fails w = (r, evs, w')"
  by (auto simp: compute_and_store_def cached_get_qa_chain_def split: prod.splits sum.splits)

lemma cached_get_raises:
  "cached_get_qa_chain svc f tmp fails w = (Inl e, evs, w') \<Longrightarrow> e = WriteError"
  by (cases "cache w (content f)"; cases fails)
     (auto simp: cached_hit cached_miss_fails cached_miss_ok get_qa_chain_write_fails get_qa_chain_writes Let_def)

lemma compute_and_store_inv:
  assumes miss: "cache w (content f) = None" and c: "compute_and_store svc f tmp fails w = (r, w')"
    and li: "loader_inv w" and cc: "cache_consistent svc w"
  shows "loader_inv w' \<and> cache_consistent svc w' \<and> (r = Inr (pipeline svc (content f)) \<or> r = Inl WriteError)"
proof -
  obtain evs where g: "cached_get_qa_chain svc f tmp fails w = (r, evs, w')"
    using compute_and_store_cached [OF miss c] by blast
  have "r = Inr (pipeline svc (content f)) \<or> r = Inl WriteError"
    using cached_result [OF cc] cached_get_raises g by (cases r) auto
  with cached_loader_inv [OF li g] cached_consistent [OF cc g] show ?thesis by blast
qed

subsection \<open>The lock table under the steps\<close>

lemma locks_okD:
  "locks_ok jobs P H \<Longrightarrow> H k = Some u \<Longrightarrow> P u = Locked \<and> job_key jobs u = k"
  "locks_ok jobs P H \<Longrightarrow> P u = Locked \<Longrightarrow> H (job_key jobs u) = Some u"
  unfolding locks_ok_def by blast+

lemma locks_ok_unlocked:
  assumes ok: "locks_ok jobs P H" and "P t \<noteq> Locked" and "X \<noteq> Locked"
  shows "locks_ok jobs (P(t := X)) H"
  unfolding locks_ok_def
proof (rule conjI; intro allI impI)
  fix k u assume "H k = Some u"
  with locks_okD(1) [OF ok] have u: "P u = Locked" "job_key jobs u = k" by blast+
  with assms(2) have "u \<noteq> t" by blast
  with u show "(P(t := X)) u = Locked \<and> job_key jobs u = k" by simp
next
  fix u assume "(P(t := X)) u = Locked"
  with assms(3) have "u \<noteq> t" and "P u = Locked" by (auto split: if_splits)
  then show "H (job_key jobs u) = Some u" using locks_okD(2) [OF ok] by blast
qed

lemma locks_ok_acquire:
  assumes ok: "locks_ok jobs P H" and bl: "P t = Blocked" and free: "H (job_key jobs t) = None"
  shows "locks_ok jobs (P(t := Locked)) (H(job_key jobs t \<mapsto> t))"
  unfolding locks_ok_def
proof (rule conjI; intro allI impI)
  fix k u assume h: "(H(job_key jobs t \<mapsto> t)) k = Some u"
  show "(P(t := Locked)) u = Locked \<and> job_key jobs u = k"
  proof (cases "k = job_key jobs t")
    case True
    with h show ?thesis by simp
  next
    case False
    with h have "H k = Some u" by simp
    with locks_okD(1) [OF ok] have u: "P u = Locked" "job_key jobs u = k" by blast+
    with bl have "u \<noteq> t" by auto
    with u show ?thesis by simp
  qed
next
  fix u assume "(P(t := Locked)) u = Locked"
  show "(H(job_key jobs t \<mapsto> t)) (job_key jobs u) = Some u"
  proof (cases "u = t")
    case True
    then show ?thesis by simp
  next
    case False
    with \<open>(P(t := Locked)) u = Locked\<close> have "P u = Locked" by simp
    with locks_okD(2) [OF ok] have hu: "H (job_key jobs u) = Some u" by blast
    with free have "job_key jobs u \<noteq> job_key jobs t" by auto
    with hu show ?thesis by simp
  qed
qed

lemma locks_ok_release:
  assumes ok: "locks_ok jobs P H" and lk: "P t = Locked"
  shows "locks_ok jobs (P(t := Finished)) (H(job_key jobs t := None))"
  unfolding locks_ok_def
proof (rule conjI; intro allI impI)
  fix k u assume h: "(H(job_key jobs t := None)) k = Some u"
  then have k: "k \<noteq> job_key jobs t" and "H k = Some u" by (auto split: if_splits)
  with locks_okD(1) [OF ok] have u: "P u = Locked" "job_key jobs u = k" by blast+
  with k have "u \<noteq> t" by auto
  with u show "(P(t := Finished)) u = Locked \<and> job_key jobs u = k" by simp
next
  fix u assume "(P(t := Finished)) u = Locked"
  then have ut: "u \<noteq> t" and "P u = Locked" by (auto split: if_splits)
  with locks_okD(2) [OF ok] have hu: "H (job_key jobs u) = Some u" by blast
  have ht: "H (job_key jobs t) = Some t" using locks_okD(2) [OF ok lk] .
  from hu ht ut have "job_key jobs u \<noteq> job_key jobs t" by auto
  with hu show "(H(job_key jobs t := None)) (job_key jobs u) = Some u" by simp
qed

subsection \<open>The invariant\<close>

lemma cache_step_inv:
  assumes step: "cache_step svc jobs s s'" and inv: "threads_inv svc jobs s"
  shows "threads_inv svc jobs s'"
proof -
  from inv have li: "loader_inv (world_of s)" and cc: "cache_consistent svc (world_of s)"
    and lk: "locks_ok jobs (pcs s) (lock_holder s)"
    and res: "\<forall>t r. result s t = Some r \<longrightarrow> r = Inr (pipeline svc (job_key jobs t)) \<or> r = Inl WriteError"
    by (simp_all add: threads_inv_def)
  have hit_value: "r = pipeline svc k" if "cache (world_of s) k = Some (r, evs)" for k r evs
    using cc that by (simp add: cache_consistent_def)
  from step show ?thesis
  proof cases
    case (hit t r evs)
    with locks_ok_unlocked [OF lk] hit_value li cc res show ?thesis by (auto simp: threads_inv_def)
  next
    case (miss t)
    with locks_ok_unlocked [OF lk] li cc res show ?thesis by (auto simp: threads_inv_def)
  next
    case (acquire t)
    with locks_ok_acquire [OF lk] li cc res show ?thesis by (auto simp: threads_inv_def)
  next
    case (recheck_hit t r evs)
    with locks_ok_release [OF lk] hit_value li cc res show ?thesis by (auto simp: threads_inv_def)
  next
    case (compute t f tmp fails r w')
    have key: "job_key jobs t = content f" using compute(4) by (simp add: job_key_def)
    have "loader_inv w' \<and> cache_consistent svc w' \<and> (r = Inr (pipeline svc (content f)) \<or> r = Inl WriteError)"
      using compute_and_store_inv [OF _ compute(5) li cc] compute(3) key by simp
    with compute locks_ok_release [OF lk compute(2), unfolded key] key res show ?thesis
      by (auto simp: threads_inv_def)
  qed
qed

lemma threads_reachable_inv: "threads_reachable svc jobs s \<Longrightarrow> threads_inv svc jobs s"
proof (induction rule: threads_reachable.induct)
  case (start w)
  then show ?case by (simp add: threads_inv_def loader_inv_def cache_consistent_def locks_ok_def threads_init_def)
next
  case (step s s')
  then show ?case by (blast intro: cache_step_inv)
qed

lemma locked_progress:
  assumes "pcs s u = Locked"
  shows "\<exists>s'. cache_step svc jobs s s' \<and> pcs s' u = Finished \<and> lock_holder s' (job_key jobs u) = None"
proof (cases "cache (world_of s) (job_key jobs u)")
  case None
  obtain f tmp fails where j: "jobs u = (f, tmp, fails)" by (metis prod.exhaust)
  obtain r w' where c: "compute_and_store svc f tmp fails (world_of s) = (r, w')" by (metis prod.exhaust)
  from cache_step.compute [OF assms None j c] show ?thesis by fastforce
next
  case (Some e)
  then obtain r evs where "cache (world_of s) (job_key jobs u) = Some (r, evs)" by (cases e) auto
  from cache_step.recheck_hit [OF assms this] show ?thesis by fastforce
qed

subsection \<open>Safety and progress under every interleaving\<close>

text \<open>
  C34. However the calls of concurrent sessions interleave, the loader has run
  exactly once per key in the cache (a document's bytes are loaded, split and embedded
  once per process even when several sessions upload them at the same time), at most
  one call per key is running the function, and every call that returned got what the
  pipeline makes of its bytes, or raised the write error.
\<close>

theorem concurrent_cache_safe:
  assumes "threads_reachable svc jobs s"
  shows "loader_calls (world_of s) = card (dom (cache (world_of s))) \<and>
         (\<forall>t u. pcs s t = Locked \<longrightarrow> pcs s u = Locked \<longrightarrow> job_key jobs t = job_key jobs u \<longrightarrow> t = u) \<and>
         (\<forall>t r. result s t = Some r \<longrightarrow> r = Inr (pipeline svc (job_key jobs t)) \<or> r = Inl WriteError)"
proof -
  from threads_reachable_inv [OF assms]
  have li: "loader_inv (world_of s)" and lk: "locks_ok jobs (pcs s) (lock_holder s)"
    and res: "\<forall>t r. result s t = Some r \<longrightarrow> r = Inr (pipeline svc (job_key jobs t)) \<or> r = Inl WriteError"
    by (simp_all add: threads_inv_def)
  have "t = u" if "pcs s t = Locked" "pcs s u = Locked" "job_key jobs t = job_key jobs u" for t u
    using locks_okD(2) [OF lk that(1)] locks_okD(2) [OF lk that(2)] that(3) by (metis option.inject)
  with li res show ?thesis by (auto simp: loader_inv_def)
qed

text \<open>
  C35. No call is ever stuck: in every reachable state, for every call that has not
  finished, there is a step that moves that call, or one that moves the call holding
  the lock on its key and releases that lock.
\<close>

theorem no_call_stuck:
  assumes reach: "threads_reachable svc jobs s" and run: "pcs s t \<noteq> Finished"
  shows "\<exists>s' u. cache_step svc jobs s s' \<and> pcs s' u \<noteq> pcs s u \<and>
           (u = t \<or> lock_holder s (job_key jobs t) = Some u \<and> lock_holder s' (job_key jobs t) = None)"
proof (cases "pcs s t")
  case Begin
  show ?thesis
  proof (cases "cache (world_of s) (job_key jobs t)")
    case None
    from cache_step.miss [OF Begin None] Begin show ?thesis by fastforce
  next
    case (Some e)
    then obtain r evs where "cache (world_of s) (job_key jobs t) = Some (r, evs)" by (cases e) auto
    from cache_step.hit [OF Begin this] Begin show ?thesis by fastforce
  qed
next
  case Blocked
  show ?thesis
  proof (cases "lock_holder s (job_key jobs t)")
    case None
    from cache_step.acquire [OF Blocked None] Blocked show ?thesis by fastforce
  next
    case (Some u)
    have "locks_ok jobs (pcs s) (lock_holder s)"
      using threads_reachable_inv [OF reach] by (simp add: threads_inv_def)
    from locks_okD(1) [OF this Some] have u: "pcs s u = Locked" "job_key jobs u = job_key jobs t" by blast+
    obtain s' where st: "cache_step svc jobs s s'" and fin: "pcs s' u = Finished"
      and rel: "lock_holder s' (job_key jobs u) = None"
      using locked_progress [OF u(1)] by blast
    have "pcs s' u \<noteq> pcs s u" using fin u(1) by simp
    with st rel u(2) Some show ?thesis by metis
  qed
next
  case Locked
  then obtain s' where st: "cache_step svc jobs s s'" and fin: "pcs s' t = Finished"
    using locked_progress by blast
  from st fin Locked show ?thesis by (intro exI [of _ s'] exI [of _ t]) simp
next
  case Finished
  with run show ?thesis by simp
qed


subsection \<open>Witnesses\<close>

lemma demo_job_key: "job_key demo_jobs t = content demo_pdf"
  by (simp add: job_key_def demo_jobs_def)

lemma demo_threads_blocked:
  "\<exists>s. threads_reachable demo_services demo_jobs s \<and> pcs s 0 = Locked \<and> pcs s 1 = Blocked \<and>
     lock_holder s (content demo_pdf) = Some 0 \<and> world_of s = demo_world"
proof -
  let ?s0 = "threads_init demo_world"
  have r0: "threads_reachable demo_services demo_jobs ?s0"
    by (rule threads_reachable.start) (simp_all add: demo_world_def)
  let ?s1 = "?s0\<lparr>pcs := (pcs ?s0)(0 := Blocked)\<rparr>"
  have r1: "threads_reachable demo_services demo_jobs ?s1"
    by (rule threads_reachable.step [OF r0 cache_step.miss])
       (simp_all add: threads_init_def demo_world_def demo_job_key)
  let ?s2 = "?s1\<lparr>pcs := (pcs ?s1)(1 := Blocked)\<rparr>"
  have r2: "threads_reachable demo_services demo_jobs ?s2"
    by (rule threads_reachable.step [OF r1 cache_step.miss])
       (simp_all add: threads_init_def demo_world_def demo_job_key)
  let ?s3 = "?s2\<lparr>pcs := (pcs ?s2)(0 := Locked), lock_holder := (lock_holder ?s2)(job_key demo_jobs 0 \<mapsto> 0)\<rparr>"
  have r3: "threads_reachable demo_services demo_jobs ?s3"
    by (rule threads_reachable.step [OF r2 cache_step.acquire]) (simp_all add: threads_init_def)
  show ?thesis
  proof (intro exI [of _ ?s3] conjI)
    show "threads_reachable demo_services demo_jobs ?s3" by (rule r3)
  qed (simp_all add: threads_init_def demo_job_key)
qed

lemma demo_compute:
  "compute_and_store demo_services demo_pdf 7 False demo_world =
     (Inr (pipeline demo_services (content demo_pdf)),
      demo_world\<lparr>console := [''--- Processing doc.pdf ---''], loader_calls := 1,
        cache := [content demo_pdf \<mapsto> (pipeline demo_services (content demo_pdf), [])]\<rparr>)"
  unfolding compute_and_store_def demo_call by (simp add: demo_world_def)

lemma demo_threads_done:
  "\<exists>s r evs. threads_reachable demo_services demo_jobs s \<and> pcs s 0 = Finished \<and> pcs s 1 = Finished \<and>
     result s 1 = Some (Inr r) \<and> cache (world_of s) = [content demo_pdf \<mapsto> (r, evs)]"
proof -
  obtain s where r3: "threads_reachable demo_services demo_jobs s" and p0: "pcs s 0 = Locked"
    and p1: "pcs s 1 = Blocked" and h: "lock_holder s (content demo_pdf) = Some 0" and w: "world_of s = demo_world"
    using demo_threads_blocked by blast
  let ?w' = "demo_world\<lparr>console := [''--- Processing doc.pdf ---''], loader_calls := 1,
        cache := [content demo_pdf \<mapsto> (pipeline demo_services (content demo_pdf), [])]\<rparr>"
  let ?r = "Inr (pipeline demo_services (content demo_pdf)) :: error + qa_chain option"
  let ?s4 = "s\<lparr>world_of := ?w', pcs := (pcs s)(0 := Finished),
               lock_holder := (lock_holder s)(job_key demo_jobs 0 := None), result := (result s)(0 := Some ?r)\<rparr>"
  have j0: "demo_jobs 0 = (demo_pdf, 7, False)" by (simp add: demo_jobs_def)
  have miss: "cache (world_of s) (job_key demo_jobs 0) = None"
    by (simp add: w demo_job_key demo_world_def)
  have r4: "threads_reachable demo_services demo_jobs ?s4"
    by (rule threads_reachable.step [OF r3 cache_step.compute [where jobs = demo_jobs and t = 0, OF p0 miss j0]])
       (simp add: w demo_compute)
  let ?s5 = "?s4\<lparr>pcs := (pcs ?s4)(1 := Locked), lock_holder := (lock_holder ?s4)(job_key demo_jobs 1 \<mapsto> 1)\<rparr>"
  have r5: "threads_reachable demo_services demo_jobs ?s5"
    by (rule threads_reachable.step [OF r4 cache_step.acquire]) (simp_all add: p1 [unfolded One_nat_def] demo_job_key)
  let ?s6 = "?s5\<lparr>pcs := (pcs ?s5)(1 := Finished), lock_holder := (lock_holder ?s5)(job_key demo_jobs 1 := None),
               result := (result ?s5)(1 := Some (Inr (pipeline demo_services (content demo_pdf))))\<rparr>"
  have r6: "threads_reachable demo_services demo_jobs ?s6"
    by (rule threads_reachable.step [OF r5 cache_step.recheck_hit]) (simp_all add: demo_job_key)
  show ?thesis
  proof (intro exI [of _ ?s6] exI [of _ "pipeline demo_services (content demo_pdf)"] exI [of _ "[]"] conjI)
    show "threads_reachable demo_services demo_jobs ?s6" by (rule r6)
  qed simp_all
qed

theorem concurrent_cache_safe_witness:
  "\<exists>s. threads_reachable demo_services demo_jobs s \<and> pcs s 0 = Finished \<and> pcs s 1 = Finished \<and>
     loader_calls (world_of s) = 1 \<and> result s 1 = Some (Inr (pipeline demo_services (content demo_pdf)))"
proof -
  obtain s r evs where reach: "threads_reachable demo_services demo_jobs s" and p: "pcs s 0 = Finished" "pcs s 1 = Finished"
    and res: "result s 1 = Some (Inr r)" and c: "cache (world_of s) = [content demo_pdf \<mapsto> (r, evs)]"
    using demo_threads_done by blast
  note safe = concurrent_cache_safe [OF reach]
  have "loader_calls (world_of s) = 1" using safe c by simp
  moreover have "result s 1 = Some (Inr (pipeline demo_services (content demo_pdf)))"
    using safe res by (auto simp: demo_job_key)
  ultimately show ?thesis using reach p by blast
qed

theorem no_call_stuck_witness:
  "\<exists>s. threads_reachable demo_services demo_jobs s \<and> pcs s 1 = Blocked \<and>
     lock_holder s (content demo_pdf) = Some 0 \<and>
     (\<exists>s' u. cache_step demo_services demo_jobs s s' \<and> pcs s' u \<noteq> pcs s u \<and>
        (u = 1 \<or> lock_holder s (job_key demo_jobs 1) = Some u \<and> lock_holder s' (job_key demo_jobs 1) = None))"
proof -
  obtain s where reach: "threads_reachable demo_services demo_jobs s" and p1: "pcs s 1 = Blocked"
    and h: "lock_holder s (content demo_pdf) = Some 0"
    using demo_threads_blocked by blast
  have "pcs s 1 \<noteq> Finished" using p1 by simp
  from no_call_stuck [OF reach this] reach p1 h show ?thesis by blast
qed

end
