(* ===== verification/Spec2Isabelle.thy ===== *)
theory Spec2Isabelle
  imports Interleave CacheLocks
begin

text \<open>
  \<^bold>\<open>AskDoc-RAG: a verification development.\<close>
  The repository is one Streamlit script, \<^verbatim>\<open>src/app.py\<close> (95 lines): a user uploads
  a PDF, the script turns it into a retrieval-augmented question-answering chain
  (load the pages, split them into overlapping chunks, embed the chunks into a Chroma
  index, wrap index and chat model into a LangChain \<^verbatim>\<open>RetrievalQA\<close> "stuff" chain),
  keeps the chain in the user's session, and answers each typed question with it.
  Everything but the orchestration is library code. The development models the
  orchestration from the source and the library calls it relies on from the spec,
  behind an interface of external services.

  \<^bold>\<open>Theories and what they model.\<close>
  \<^item> \<open>Prelude\<close>: bytes (\<open>8 word list\<close>), paths, the exception datatype \<open>error\<close>,
    the sum-monad bind \<open>sbind\<close>, the failing-as-a-whole batch call \<open>traverse\<close>,
    Python's \<open>str.join\<close> (\<open>join\<close>), and their shared lemmas.
  \<^item> \<open>Chunker\<close>: \<^verbatim>\<open>RecursiveCharacterTextSplitter(chunk_size=1000,
    chunk_overlap=100)\<close> and \<^verbatim>\<open>split_documents\<close> (lines 36--37): the constants
    \<open>chunk_size\<close> and \<open>chunk_overlap\<close> from the source, the sliding window
    \<open>split_text\<close> from the spec (4.2), per page as the source calls it; the same
    loop for any configuration as the partial function \<open>sliding_window\<close>.
  \<^item> \<open>VectorIndex\<close>: \<^verbatim>\<open>Chroma.from_documents\<close> and \<^verbatim>\<open>as_retriever()\<close> (lines
    39--43) from the spec (4.4): \<open>from_documents\<close>, the ranking \<open>ranked\<close> by
    distance (stable, the spec's example of a deterministic tie-break, on which no
    theorem relies), \<open>similarity_search\<close>, which returns fewer than \<open>k\<close> chunks
    when the index holds fewer, the default \<open>search_k = 4\<close>; and a scanning index
    with a bounded buffer, \<open>scan_search\<close>, proved to answer exactly as
    \<open>similarity_search\<close> (the alternative backing of spec section 9).
  \<^item> \<open>QAChain\<close>: the interface \<open>services\<close> (loader, embedding API, chat API), the
    chain record \<open>qa_chain\<close>, \<open>build_qa_chain\<close> (lines 36--51), Chroma's squared
    Euclidean \<open>chroma_distance\<close>, and \<^verbatim>\<open>RetrievalQA.run\<close> as \<open>qa_run\<close> with the
    prompt \<open>stuff_prompt\<close> (spec 4.5).
  \<^item> \<open>Processing\<close>: \<^verbatim>\<open>get_qa_chain_from_pdf\<close> (lines 24--61) as
    \<open>get_qa_chain_from_pdf\<close> over the process state \<open>world\<close> (file system,
    standard output, Streamlit's resource cache, a count of loader calls), its
    \<^verbatim>\<open>try\<close> body \<open>try_block\<close>, and the \<^verbatim>\<open>@st.cache_resource\<close> wrapper
    \<open>cached_get_qa_chain\<close>, which stores each result with the elements the call
    rendered and replays them on a hit.
  \<^item> \<open>Session\<close>: one rerun of the script (lines 16--95) as \<open>run_script\<close> on the
    process state and \<^verbatim>\<open>st.session_state\<close> (\<open>session\<close>), with the credential check
    \<open>api_key_missing\<close>, \<open>needs_processing\<close> (line 74), \<open>process_document\<close> (lines
    75--82), \<open>handle_question\<close> (lines 85--92); the reachable states \<open>reachable\<close>
    (from a fresh process whose cache is empty and whose loader count is zero), the
    invariant \<open>session_inv\<close> and the loader count \<open>loader_inv\<close>.
  \<^item> \<open>Lifecycle\<close>: the spec's orchestrator (4.6) as the step relation
    \<open>lifecycle_step\<close> between the abstract phases \<open>Idle\<close> and \<open>Ready n\<close>, the
    abstraction \<open>phase_of\<close> of a session, the upload a rerun presents
    (\<open>upload_event\<close>, none when the script stops at the credential check), and
    \<open>run_trace\<close>, a sequence of reruns of one session run in order.
  \<^item> \<open>Interleave\<close>: many sessions in one process: one session state per session id
    and the shared process state (\<open>run_session\<close>), schedules of reruns of several
    sessions in which every rerun carries the services as they behave at that moment
    (\<open>run_schedule\<close>), the bytes a session uploads (\<open>docs_of\<close>), the world-free
    specification of a rerun (\<open>rerun_view\<close>, with \<open>render\<close> the error the pipeline
    shows), and the cache invariant \<open>world_ok\<close>: every entry is what the pipeline
    makes and renders of its key.
  \<^item> \<open>CacheLocks\<close>: concurrent calls of the cached function from the threads of
    different sessions: \<open>cache_step\<close> moves one call at a time through the
    resource cache's protocol (look up; on a miss take the key's lock, look up again,
    run the function as \<open>compute_and_store\<close> only if still missing, release), from
    \<open>threads_init\<close>; \<open>threads_inv\<close> relates the lock table, the calls and the cache.
  \<^item> this theory: one rerun end to end, from the upload to the answer, for every
    service, with the geography scenario of spec section 8 as its instance.

  \<^bold>\<open>How the parts interact.\<close> A rerun reads the environment and the widgets, calls
  the cached processing function when the upload's name differs from the stored one,
  stores its result in the session, and runs the stored chain on the question. The
  process-wide cache is shared by all sessions: the reachability relation lets other
  sessions fill it between reruns, and \<open>run_schedule\<close> interleaves reruns of several
  sessions. Services are a parameter everywhere, so each theorem holds for every
  loader, embedding model and chat model. The theories of one session (\<open>reachable\<close>,
  \<open>run_trace\<close>) fix the services for the life of the process, so a service there
  fails for given bytes at every rerun or at none; the theorems about transient
  failures (C29, C30, C33) let them change from one rerun to the next.

  \<^bold>\<open>What is proved.\<close> Chunker: round trip, shape, overlap, count of chunks,
  chunks never cross pages (C10--C14); the window loop returns for every configuration
  whose overlap is below its window and never returns otherwise (C26, C27). Retrieval
  and chain: the app's retriever always answers with \<open>min 4 n\<close> of the document's
  chunks, the nearest ones, an answer comes from one round of the stuff recipe, and the
  prompt is bounded (C15--C18). Processing: the temporary file is removed on every path
  through the \<^verbatim>\<open>try\<close>, the result is what the pipeline makes of the bytes, and a
  failed write leaks the file (C5, C6, C9). Session: a failed upload makes every
  question raise \<^verbatim>\<open>AttributeError\<close>; the reachable-state invariant; memoisation by
  name; replacement on a new name; the cache keeps failures; the missing-credential
  halt (C1--C4, C7, C8). One rerun from upload to answer, for every service (C19). The
  loader runs once per distinct cached content (C20); a failing question keeps the
  index (C21). Lifecycle: every rerun, and every sequence of reruns, refines the spec's
  orchestrator (C22, C23), except the reruns from a session stuck on a failed name,
  which never process again (C24), and a failed write of the temporary file, which
  keeps the old document active (C25). Type preservation: with an embedding service of
  one dimension, every chain in a reachable session or in the cache is well typed
  (C28). Progress: whatever the services did before, a document the services now
  process becomes active within two upload-only reruns, provided its bytes are not
  cached as a failure (C29). Interleave: every rerun refines its world-free view
  (C31); a rerun reads and writes the shared cache only at the bytes it uploads, so
  sessions that upload different documents do not interfere, whatever the services do
  at each rerun (C30); sessions that share a document do: a failed write shows only on
  a cache miss (C32), and a failure of the services, even a transient one, is cached
  for the life of the process and keeps every session that uploads those bytes, under
  any name and with any later services, from a usable pipeline (C33). CacheLocks:
  however concurrent calls interleave, the loader runs once per cached key, at most
  one call per key runs the function, every call gets the pipeline's value or the
  write error (C34), and no call is ever stuck (C35).

  \<^bold>\<open>Bounds and termination.\<close> The chunker's loop advances by
  \<open>chunk_size - chunk_overlap = 900\<close> characters, so \<open>split_text\<close> is a total
  \<^theory_text>\<open>function\<close> with the measure \<open>length\<close>; the configuration is the source's,
  so no fuel is needed. For other configurations the loop is the \<^theory_text>\<open>partial_function\<close>
  \<open>sliding_window\<close>, where not returning is the value \<open>None\<close>; C26 and C27
  characterise when it returns. Every other recursion is structural on a list and
  needs no bound: the scanning index's \<open>insert_ranked\<close>, \<open>traverse\<close> and \<open>join\<close>
  over the batch, the traces \<open>run_trace\<close>, \<open>trace_ok\<close> and \<open>run_schedule\<close> over
  their list of reruns, and the
  string tests \<open>has_prefix\<close> and \<open>contains\<close> of this theory. The step relations
  (\<open>reachable\<close>, \<open>lifecycle_step\<close>, \<open>cache_step\<close>) are inductive; C35 proves that
  the calls never deadlock: while some call is unfinished, some step is possible.

  \<^bold>\<open>Not modelled.\<close> PDF parsing, embedding and generation are the services
  interface, with no model of what they compute. Page layout, the spinner's
  animation and widget rendering are presentation. The recursive separator logic of
  LangChain's splitter is replaced by the spec's sliding window, and its constructor's
  rejection of an overlap larger than the window is not modelled (the source's
  configuration passes it). The time order of
  concurrent sessions is abstracted: reruns of different sessions interleave as whole
  steps (\<open>run_schedule\<close>, and in \<open>reachable\<close> other sessions fill the shared cache
  between reruns). Inside a rerun only the cached call is refined into finer steps
  (\<open>CacheLocks\<close>), where concurrency meets shared state; the function body runs
  there as one step under its key's lock, and the bodies of calls on different keys,
  which touch different temporary files, are not interleaved with each other.
  The three partly modelled components stop where the repository stops: PDF parsing
  (\<^verbatim>\<open>PyPDFLoader\<close>), the embedding API and the chat API have no source here and
  the spec gives them only as contracts, so they are the fields of \<open>services\<close>
  and every theorem quantifies over them. The texts of exceptions are abstracted by
  \<open>error_text\<close>, since \<^verbatim>\<open>str(e)\<close> is produced by library code. What Chroma does
  with an empty batch (a PDF without text gives no chunk) depends on its release: some
  reject it at build time, others build an empty index; the model follows the spec,
  whose index answers fewer than \<open>k\<close> chunks, here none, and the repository does not
  pin a release. The
  \<^verbatim>\<open>type=["pdf"]\<close> filter of the uploader is enforced by the browser widget and is
  presentation. Lines 1--15 of the source are imports and comments and have no
  model.
\<close>

section \<open>End to end\<close>

text \<open>
  A three-page PDF whose second page (index 1) holds the sentence
  "The capital of France is Paris."; an embedding that marks texts mentioning France;
  a chat model that answers from the prompt it is given. Substring search on strings
  is written out as \<open>contains\<close>, so that the kernel can evaluate the run.
\<close>
fun has_prefix :: "string \<Rightarrow> string \<Rightarrow> bool" where
  "has_prefix [] ys = True"
| "has_prefix (x # xs) [] = False"
| "has_prefix (x # xs) (y # ys) = (x = y \<and> has_prefix xs ys)"

fun contains :: "string \<Rightarrow> string \<Rightarrow> bool" where
  "contains p [] = (p = [])"
| "contains p (c # cs) = (has_prefix p (c # cs) \<or> contains p cs)"

definition geography_pages :: "string list" where
  "geography_pages =
     [''Europe has many countries.'', ''The capital of France is Paris.'', ''Rivers cross the continent.'']"

definition paris_services :: services where
  "paris_services =
     \<lparr>load_pdf = (\<lambda>b. if b = [] then Inl LoadError else Inr geography_pages),
      embed = (\<lambda>m t. Inr [if contains ''France'' t then 1 else 0]),
      chat = (\<lambda>cfg p. Inr (if contains ''Paris'' p then ''Paris is the capital of France.''
                          else ''I don't know.''))\<rparr>"

definition geography_pdf :: uploaded_file where
  "geography_pdf = \<lparr>name = ''geography.pdf'', content = [0x25, 0x50, 0x44, 0x46, 0x2D]\<rparr>"

definition paris_question :: script_input where
  "paris_question = \<lparr>api_key = Some ''key'', uploaded = Some geography_pdf,
     user_question = ''What is the capital of France?'', tmp_path = 1, write_fails = False\<rparr>"

definition fresh_world :: world where
  "fresh_world = \<lparr>fs = Map.empty, console = [], cache = Map.empty, loader_calls = 0\<rparr>"

abbreviation paris_chain :: qa_chain where
  "paris_chain \<equiv> \<lparr>vectorstore =
            [(\<lparr>page_content = ''Europe has many countries.'', page = 0\<rparr>, [0]),
             (\<lparr>page_content = ''The capital of France is Paris.'', page = 1\<rparr>, [1]),
             (\<lparr>page_content = ''Rivers cross the continent.'', page = 2\<rparr>, [0])],
          embedding_model = embedding_model_name, retriever_k = search_k, llm = gemini_pro,
          chain_type = ''stuff''\<rparr>"

subsection \<open>Evaluation of the run\<close>

lemma paris_build:
  "sbind (load_pdf paris_services (content geography_pdf)) (build_qa_chain paris_services) =
     Inr \<lparr>vectorstore =
            [(\<lparr>page_content = ''Europe has many countries.'', page = 0\<rparr>, [0]),
             (\<lparr>page_content = ''The capital of France is Paris.'', page = 1\<rparr>, [1]),
             (\<lparr>page_content = ''Rivers cross the continent.'', page = 2\<rparr>, [0])],
          embedding_model = embedding_model_name, retriever_k = search_k, llm = gemini_pro,
          chain_type = ''stuff''\<rparr>"
  by (simp add: paris_services_def geography_pdf_def geography_pages_def build_qa_chain_def
      from_documents_def pages_to_documents_def split_text_short chunk_size_def upt_conv_Cons)

lemma paris_retrieve:
  "similarity_search chroma_distance (retriever_k paris_chain) [1] (vectorstore paris_chain) =
     Inr [\<lparr>page_content = ''The capital of France is Paris.'', page = 1\<rparr>,
          \<lparr>page_content = ''Europe has many countries.'', page = 0\<rparr>,
          \<lparr>page_content = ''Rivers cross the continent.'', page = 2\<rparr>]"
  by (simp add: similarity_search_def ranked_def chroma_distance_def search_k_def)

lemma paris_answer:
  "qa_run paris_services paris_chain ''What is the capital of France?'' = Inr ''Paris is the capital of France.''"
  using paris_retrieve
  by (simp add: qa_run_def paris_services_def stuff_prompt_def prompt_template_def qa_instructions_def newline_def)

lemma end_to_end_run:
  assumes key: "\<not> api_key_missing (api_key inp)" and up: "uploaded inp = Some f" and nw: "\<not> write_fails inp"
    and miss: "cache w (content f) = None" and built: "pipeline svc (content f) = Some c"
  shows "run_script svc inp (w, init_session) =
     ((w\<lparr>fs := (fs w)(tmp_path inp := None), console := console w @ [''--- Processing '' @ name f @ '' ---''],
         loader_calls := Suc (loader_calls w), cache := (cache w)(content f \<mapsto> (Some c, []))\<rparr>,
       \<lparr>qa_chain = Some (Some c), file_name = Some (name f)\<rparr>),
      page_header @ [Spinner (processing_message f), Success ''Document processed! You can now ask questions.''] @
        handle_question svc (user_question inp) \<lparr>qa_chain = Some (Some c), file_name = Some (name f)\<rparr>)"
proof -
  have b: "sbind (load_pdf svc (content f)) (build_qa_chain svc) = Inr c"
    using built by (auto simp: pipeline_def split: sum.splits)
  have np: "needs_processing init_session f = Inr True" by (simp add: needs_processing_def init_session_def)
  have pd: "process_document svc inp f w init_session =
     (Inr \<lparr>qa_chain = Some (Some c), file_name = Some (name f)\<rparr>,
      [Spinner (processing_message f), Success ''Document processed! You can now ask questions.''],
      w\<lparr>fs := (fs w)(tmp_path inp := None), console := console w @ [''--- Processing '' @ name f @ '' ---''],
        loader_calls := Suc (loader_calls w), cache := (cache w)(content f \<mapsto> (Some c, []))\<rparr>)"
    using b miss nw
    by (simp add: process_document_def cached_miss_ok get_qa_chain_writes pipeline_def Let_def init_session_def)
  from run_script_process [OF key up np pd] show ?thesis by simp
qed

text \<open>
  C19. End to end, for every loader, embedding and chat service, every document and
  every question: in a fresh session, one rerun with a PDF uploaded whose bytes are
  not cached yet and a question typed, when the services build a chain from the PDF
  and the chain answers the question, loads the document once, caches the chain with
  no replayed element, activates the document under its name, shows the processing
  spinner, the success message, the question box, the answer spinner and the chain's
  answer, in this order, and leaves no temporary file behind.
\<close>

theorem end_to_end:
  assumes "\<not> api_key_missing (api_key inp)" and "uploaded inp = Some f" and "\<not> write_fails inp"
    and "user_question inp \<noteq> []" and "cache w (content f) = None" and "fs w (tmp_path inp) = None"
    and "pipeline svc (content f) = Some c" and "qa_run svc c (user_question inp) = Inr a"
  shows "\<exists>w'. run_script svc inp (w, init_session) =
           ((w', \<lparr>qa_chain = Some (Some c), file_name = Some (name f)\<rparr>),
            page_header @ [Spinner (processing_message f), Success ''Document processed! You can now ask questions.'',
              TextInput ''Ask a question about your document:'', Spinner ''Searching for the answer...'', Write a]) \<and>
         fs w' = fs w \<and> loader_calls w' = Suc (loader_calls w) \<and> cache w' (content f) = Some (Some c, [])"
  using end_to_end_run [OF assms(1,2,3,5,7)] assms(4,6,8)
  by (simp add: handle_question_def fun_upd_idem)

text \<open>
  The spec's scenario (section 8): a three-page PDF whose second page (index 1) holds
  the sentence "The capital of France is Paris."; an embedding that marks texts
  mentioning France; a chat model that answers from the prompt it is given. The
  retrieved chunks include the chunk with the sentence, and the answer names Paris.
\<close>

theorem end_to_end_witness:
  "\<exists>w'. run_script paris_services paris_question (fresh_world, init_session) =
     ((w', \<lparr>qa_chain = Some (Some paris_chain), file_name = Some ''geography.pdf''\<rparr>),
      page_header @ [Spinner (processing_message geography_pdf),
        Success ''Document processed! You can now ask questions.'',
        TextInput ''Ask a question about your document:'', Spinner ''Searching for the answer...'',
        Write ''Paris is the capital of France.'']) \<and>
     fs w' = fs fresh_world \<and> loader_calls w' = 1"
proof -
  have facts: "\<not> api_key_missing (api_key paris_question)" "uploaded paris_question = Some geography_pdf"
    "\<not> write_fails paris_question" "user_question paris_question \<noteq> []"
    "cache fresh_world (content geography_pdf) = None" "fs fresh_world (tmp_path paris_question) = None"
    by (simp_all add: paris_question_def api_key_missing_def fresh_world_def)
  have built: "pipeline paris_services (content geography_pdf) = Some paris_chain"
    using paris_build by (simp add: pipeline_def)
  have ans: "qa_run paris_services paris_chain (user_question paris_question) = Inr ''Paris is the capital of France.''"
    using paris_answer by (simp add: paris_question_def)
  have nm: "name geography_pdf = ''geography.pdf''" and lc: "loader_calls fresh_world = 0"
    by (simp_all add: geography_pdf_def fresh_world_def)
  from end_to_end [OF facts built ans] nm lc show ?thesis by auto
qed

end
